theory Spec2Isabelle
  imports Complex_Main "HOL-Library.Finite_Map" "HOL-Library.Sublist"
begin

section \<open>Errors\<close>

text \<open>
  The stack program signals a rejected configuration by throwing a string
  (\<^verbatim>\<open>throw("invalid cluster config")\<close>); the specification calls this error
  \<open>InvalidConfiguration\<close>, and the thrown text is kept as its argument. Reading or
  writing a property of \<^verbatim>\<open>undefined\<close> or \<^verbatim>\<open>null\<close> raises the language's
  \<open>TypeError\<close>.
\<close>

datatype error = InvalidConfiguration string | TypeError

definition bindE :: "error + 'a \<Rightarrow> ('a \<Rightarrow> error + 'b) \<Rightarrow> error + 'b" where
  "bindE m f = (case m of Inl e \<Rightarrow> Inl e | Inr x \<Rightarrow> f x)"

section \<open>Structured objects\<close>

text \<open>
  A decoded manifest document is a tree of \<^verbatim>\<open>any\<close>-typed values. An object maps
  property names to values; an array has elements and, being an object as well, may carry
  named properties. Key order is not part of the value. The \<^verbatim>\<open>length\<close> property and
  inherited members are left out: the transformations read none of them.
\<close>

datatype json =
    JUndefined
  | JNull
  | JBool bool
  | JNum int
  | JStr string
  | JArr "json list" "(string, json) fmap"
  | JObj "(string, json) fmap"

definition digit_val :: "char \<Rightarrow> nat" where
  "digit_val c = of_char c - 48"

definition is_digit :: "char \<Rightarrow> bool" where
  "is_digit c = (c \<in> set ''0123456789'')"

text \<open>A property name is an array index when it is the canonical decimal form of a number
  below \<open>2^32 - 1\<close>; \<^verbatim>\<open>containers[0]\<close> reads the property named \<^verbatim>\<open>"0"\<close>.\<close>

definition array_index :: "string \<Rightarrow> nat option" where
  "array_index k =
     (if k \<noteq> [] \<and> list_all is_digit k \<and> (k = ''0'' \<or> hd k \<noteq> CHR ''0'')
         \<and> foldl (\<lambda>n c. 10 * n + digit_val c) 0 k < 2 ^ 32 - 1
      then Some (foldl (\<lambda>n c. 10 * n + digit_val c) 0 k) else None)"

definition own_prop :: "(string, json) fmap \<Rightarrow> string \<Rightarrow> json" where
  "own_prop m k = (case fmlookup m k of None \<Rightarrow> JUndefined | Some v \<Rightarrow> v)"

text \<open>\<^verbatim>\<open>t.k\<close> and \<^verbatim>\<open>t[k]\<close>: a missing property reads as \<^verbatim>\<open>undefined\<close>; reading from
  \<^verbatim>\<open>undefined\<close> or \<^verbatim>\<open>null\<close> throws.\<close>

definition get_prop :: "string \<Rightarrow> json \<Rightarrow> error + json" where
  "get_prop k t =
     (case t of
        JUndefined \<Rightarrow> Inl TypeError
      | JNull \<Rightarrow> Inl TypeError
      | JBool b \<Rightarrow> Inr JUndefined
      | JNum n \<Rightarrow> Inr JUndefined
      | JStr s \<Rightarrow>
          Inr (case array_index k of
                 Some i \<Rightarrow> if i < length s then JStr [s ! i] else JUndefined
               | None \<Rightarrow> JUndefined)
      | JArr xs ps \<Rightarrow>
          Inr (case array_index k of
                 Some i \<Rightarrow> if i < length xs then xs ! i else JUndefined
               | None \<Rightarrow> own_prop ps k)
      | JObj m \<Rightarrow> Inr (own_prop m k))"

text \<open>\<^verbatim>\<open>t.k = v\<close>. The program is a module, hence strict code: assigning a property of a
  primitive throws, as it does for \<^verbatim>\<open>undefined\<close> and \<^verbatim>\<open>null\<close>. Writing an array
  element past the end extends the array.\<close>

definition array_put :: "nat \<Rightarrow> json \<Rightarrow> json list \<Rightarrow> json list" where
  "array_put i v xs = (xs @ replicate (Suc i - length xs) JUndefined)[i := v]"

definition set_prop :: "string \<Rightarrow> json \<Rightarrow> json \<Rightarrow> error + json" where
  "set_prop k v t =
     (case t of
        JObj m \<Rightarrow> Inr (JObj (fmupd k v m))
      | JArr xs ps \<Rightarrow>
          Inr (case array_index k of
                 Some i \<Rightarrow> JArr (array_put i v xs) ps
               | None \<Rightarrow> JArr xs (fmupd k v ps))
      | _ \<Rightarrow> Inl TypeError)"

text \<open>\<^verbatim>\<open>t.k1.k2...kn\<close>, read from left to right.\<close>

fun get_path :: "string list \<Rightarrow> json \<Rightarrow> error + json" where
  "get_path [] t = Inr t"
| "get_path (k # ks) t = (case get_prop k t of Inl e \<Rightarrow> Inl e | Inr c \<Rightarrow> get_path ks c)"

text \<open>\<^verbatim>\<open>t.k1.k2...kn = v\<close>: the source mutates the innermost object in place; the tree is
  rebuilt along the path so that the root shows the change.\<close>

fun assign :: "string list \<Rightarrow> json \<Rightarrow> json \<Rightarrow> error + json" where
  "assign [] v t = Inr v"
| "assign (k # ks) v t =
     (case get_prop k t of
        Inl e \<Rightarrow> Inl e
      | Inr c \<Rightarrow> (case assign ks v c of Inl e \<Rightarrow> Inl e | Inr c' \<Rightarrow> set_prop k c' t))"

definition obj_lit :: "(string \<times> json) list \<Rightarrow> json" where
  "obj_lit kvs = JObj (fmap_of_list kvs)"

definition arr_lit :: "json list \<Rightarrow> json" where
  "arr_lit xs = JArr xs fmempty"

section \<open>Transformations\<close>

record CPULimits =
  request :: "string option"
  limit :: "string option"

record MemoryLimits =
  request :: "string option"
  limit :: "string option"

text \<open>Truthiness of an optional string: \<^verbatim>\<open>undefined\<close> and \<^verbatim>\<open>""\<close> are falsy.\<close>

definition truthy :: "string option \<Rightarrow> bool" where
  "truthy s = (case s of None \<Rightarrow> False | Some x \<Rightarrow> x \<noteq> [])"

text \<open>\<^verbatim>\<open>cpu?.request\<close> and its siblings: \<^verbatim>\<open>undefined\<close> when the limits are missing.\<close>

definition cpu_request :: "CPULimits option \<Rightarrow> string option" where
  "cpu_request cpu = (case cpu of None \<Rightarrow> None | Some c \<Rightarrow> CPULimits.request c)"

definition cpu_limit :: "CPULimits option \<Rightarrow> string option" where
  "cpu_limit cpu = (case cpu of None \<Rightarrow> None | Some c \<Rightarrow> CPULimits.limit c)"

definition memory_request :: "MemoryLimits option \<Rightarrow> string option" where
  "memory_request memory = (case memory of None \<Rightarrow> None | Some c \<Rightarrow> MemoryLimits.request c)"

definition memory_limit :: "MemoryLimits option \<Rightarrow> string option" where
  "memory_limit memory = (case memory of None \<Rightarrow> None | Some c \<Rightarrow> MemoryLimits.limit c)"

text \<open>The guard \<^verbatim>\<open>obj.kind === kind && obj.metadata.name === name\<close>; the name is read
  only when the kind matches.\<close>

definition is_target :: "string \<Rightarrow> string \<Rightarrow> json \<Rightarrow> error + bool" where
  "is_target kind name obj =
     (case get_prop ''kind'' obj of
        Inl e \<Rightarrow> Inl e
      | Inr k \<Rightarrow>
          if k = JStr kind
          then (case get_path [''metadata'', ''name''] obj of
                  Inl e \<Rightarrow> Inl e
                | Inr n \<Rightarrow> Inr (n = JStr name))
          else Inr False)"

text \<open>
  A transformation takes an object and mutates it in place; here it returns the object
  after the call, or the exception. The second parameter of the source functions
  (\<^verbatim>\<open>opts\<close>) is never read and is left out.
\<close>

definition scaleDeployment :: "string \<Rightarrow> int \<Rightarrow> json \<Rightarrow> error + json" where
  "scaleDeployment name replicas obj =
     bindE (is_target ''Deployment'' name obj) (\<lambda>hit.
       if hit then assign [''spec'', ''replicas''] (JNum replicas) obj else Inr obj)"

text \<open>
  \<^verbatim>\<open>setLimits\<close> first reads \<^verbatim>\<open>obj.spec.template.spec.containers[0]\<close> into
  \<^verbatim>\<open>container\<close>, which throws when an object on the way is missing, and then assigns
  through \<^verbatim>\<open>container.resources\<close> for each truthy value, in the order CPU request,
  CPU limit, memory request, memory limit. As \<^verbatim>\<open>container\<close> is a reference into
  \<^verbatim>\<open>obj\<close>, each assignment is an assignment through the full path from \<^verbatim>\<open>obj\<close>.
\<close>

definition container_path :: "string list" where
  "container_path = [''spec'', ''template'', ''spec'', ''containers'', ''0'']"

definition set_if :: "string option \<Rightarrow> string list \<Rightarrow> json \<Rightarrow> error + json" where
  "set_if s path obj = (if truthy s then assign path (JStr (the s)) obj else Inr obj)"

definition setLimits ::
  "string \<Rightarrow> CPULimits option \<Rightarrow> MemoryLimits option \<Rightarrow> json \<Rightarrow> error + json" where
  "setLimits name cpu memory obj =
     bindE (is_target ''Deployment'' name obj) (\<lambda>hit.
       if hit then
         bindE (get_path container_path obj) (\<lambda>container.
         bindE (set_if (cpu_request cpu)
                  (container_path @ [''resources'', ''requests'', ''cpu'']) obj) (\<lambda>o1.
         bindE (set_if (cpu_limit cpu)
                  (container_path @ [''resources'', ''limits'', ''cpu'']) o1) (\<lambda>o2.
         bindE (set_if (memory_request memory)
                  (container_path @ [''resources'', ''requests'', ''memory'']) o2) (\<lambda>o3.
         set_if (memory_limit memory)
           (container_path @ [''resources'', ''limits'', ''memory'']) o3))))
       else Inr obj)"

definition toleration :: "string \<Rightarrow> json" where
  "toleration v =
     arr_lit [obj_lit [(''key'', JStr ''dedicated''), (''operator'', JStr ''Equal''),
                       (''value'', JStr v), (''effect'', JStr ''NoSchedule'')]]"

definition tolerateDedicated :: "string \<Rightarrow> json \<Rightarrow> error + json" where
  "tolerateDedicated v obj =
     bindE (get_prop ''kind'' obj) (\<lambda>k.
       if k = JStr ''Deployment''
       then assign [''spec'', ''template'', ''spec'', ''tolerations''] (toleration v) obj
       else Inr obj)"

definition configureAWSDatasource :: "string \<Rightarrow> string \<Rightarrow> string \<Rightarrow> json \<Rightarrow> error + json" where
  "configureAWSDatasource name region endpoint obj =
     bindE (is_target ''GrafanaDatasource'' name obj) (\<lambda>hit.
       if hit then
         bindE (if endpoint \<noteq> ''''
                then assign [''spec'', ''datasource'', ''url''] (JStr endpoint) obj
                else Inr obj) (\<lambda>o1.
         assign [''spec'', ''datasource'', ''jsonData'']
           (obj_lit [(''sigV4Auth'', JBool True),
                     (''sigV4AuthType'', JStr ''ec2_iam_role''),
                     (''sigV4Region'', JStr region)]) o1)
       else Inr obj)"

definition configureExternalGrafana :: "string \<Rightarrow> string \<Rightarrow> json \<Rightarrow> error + json" where
  "configureExternalGrafana name endpoint obj =
     bindE (is_target ''Grafana'' name obj) (\<lambda>hit.
       if hit then assign [''spec'', ''external'', ''url''] (JStr (''https://'' @ endpoint)) obj
       else Inr obj)"



section \<open>The transformation pipeline\<close>

text \<open>
  Modelled from the spec: the loop that applies a list of transformations to a manifest
  group belongs to the deployment library, not to this repository. For each transformation
  in the given order, for each object in the group's stored order, the transformation is
  invoked on the object; an exception ends the run.
\<close>

fun for_each :: "(json \<Rightarrow> error + json) \<Rightarrow> json list \<Rightarrow> error + json list" where
  "for_each f [] = Inr []"
| "for_each f (x # xs) = bindE (f x) (\<lambda>y. bindE (for_each f xs) (\<lambda>ys. Inr (y # ys)))"

fun apply_transformations ::
  "(json \<Rightarrow> error + json) list \<Rightarrow> json list \<Rightarrow> error + json list" where
  "apply_transformations [] g = Inr g"
| "apply_transformations (f # fs) g = bindE (for_each f g) (apply_transformations fs)"

text \<open>The three generators used for the core-service and benchmark manifest groups.\<close>

datatype transformation =
    Scale string int
  | Limits string "CPULimits option" "MemoryLimits option"
  | Tolerate string

fun transform :: "transformation \<Rightarrow> json \<Rightarrow> error + json" where
  "transform (Scale name replicas) = scaleDeployment name replicas"
| "transform (Limits name cpu memory) = setLimits name cpu memory"
| "transform (Tolerate v) = tolerateDedicated v"

section \<open>Configuration\<close>

text \<open>
  Sizing values are counts and are modelled as integers. A field that the code guards
  against \<^verbatim>\<open>undefined\<close> is an option. The free-form \<^verbatim>\<open>DynamicConfig\<close> block is
  left out: none of the functions below reads it.
\<close>

record FrontendConfig =
  Pods :: int
  CPU :: "CPULimits option"
  Memory :: "MemoryLimits option"

record HistoryConfig =
  Shards :: int
  Pods :: int
  CPU :: "CPULimits option"
  Memory :: "MemoryLimits option"

record MatchingConfig =
  TaskQueuePartitions :: int
  Pods :: int
  CPU :: "CPULimits option"
  Memory :: "MemoryLimits option"

record WorkerConfig =
  Pods :: int
  WorkflowPollers :: int
  ActivityPollers :: int
  CPU :: "CPULimits option"
  Memory :: "MemoryLimits option"

record SoakTestConfig =
  ConcurrentWorkflows :: int

record TemporalConfig =
  Frontend :: FrontendConfig
  History :: HistoryConfig
  Matching :: MatchingConfig
  Workers :: WorkerConfig
  SoakTest :: SoakTestConfig

record EKSClusterConfig =
  EnvironmentStackName :: string
  NodeType :: string
  NodeCount :: int

record ClusterConfig =
  EKS :: "EKSClusterConfig option"

record OpenSearchConfig =
  InstanceType :: string
  EngineVersion :: string

record VisibilityConfig =
  OpenSearch :: "OpenSearchConfig option"

record RDSPersistenceConfig =
  EnvironmentStackName :: string
  Engine :: string
  EngineVersion :: string
  InstanceType :: string
  SingleAZ :: bool

record CassandraPersistenceConfig =
  NodeType :: string
  NodeCount :: int
  ReplicaCount :: int

record PersistenceConfig =
  RDS :: "RDSPersistenceConfig option"
  Cassandra :: "CassandraPersistenceConfig option"
  Visibility :: "VisibilityConfig option"

type_synonym ConfigMapData = "string \<rightharpoonup> string"

subsection \<open>Numbers\<close>

text \<open>
  A number of the program is an IEEE 754 double. A count of the configuration is written
  as an integer and read as the nearest double, ties to the even significand; beyond the
  largest double it reads as an infinity. Only whole numbers, quotients of whole numbers
  and the rounding up of such a quotient occur, so a double that is a whole number is
  kept as an integer, and a quotient as the real number it denotes.
\<close>

fun string_of_nat :: "nat \<Rightarrow> string" where
  "string_of_nat n =
     (if n < 10 then [''0123456789'' ! n]
      else string_of_nat (n div 10) @ [''0123456789'' ! (n mod 10)])"

declare string_of_nat.simps [simp del]

text \<open>The number a string of decimal digits denotes.\<close>

definition decimal_value :: "string \<Rightarrow> nat" where
  "decimal_value s = foldl (\<lambda>n c. 10 * n + digit_val c) 0 s"

text \<open>The number of binary digits of \<open>n\<close>.\<close>

fun bit_length :: "nat \<Rightarrow> nat" where
  "bit_length n = (if n = 0 then 0 else Suc (bit_length (n div 2)))"

declare bit_length.simps [simp del]

text \<open>\<open>n / d\<close> rounded to the nearest whole number, a tie to the even one.\<close>

definition round_half_even :: "nat \<Rightarrow> nat \<Rightarrow> nat" where
  "round_half_even n d =
     (if 2 * (n mod d) < d then n div d
      else if d < 2 * (n mod d) then n div d + 1
      else if even (n div d) then n div d else n div d + 1)"

text \<open>
  The double nearest to a whole number: the number itself up to \<open>2^53\<close>; above, its leading
  53 binary digits, rounded; \<open>None\<close> when the rounding reaches \<open>2^1024\<close>, where the doubles
  end.
\<close>

definition round_nat :: "nat \<Rightarrow> nat option" where
  "round_nat n =
     (if n \<le> 2 ^ 53 then Some n
      else if 2 ^ 1024 \<le> round_half_even n (2 ^ (bit_length n - 53)) * 2 ^ (bit_length n - 53)
      then None
      else Some (round_half_even n (2 ^ (bit_length n - 53)) * 2 ^ (bit_length n - 53)))"

text \<open>The doubles that are whole numbers, with the negative zero, the infinities and
  \<^verbatim>\<open>NaN\<close>.\<close>

datatype whole = Whole int | WNegZero | WInfinity | WNegInfinity | WNaN

text \<open>A configured count, as the program holds it.\<close>

definition number_of_int :: "int \<Rightarrow> whole" where
  "number_of_int i =
     (case round_nat (nat \<bar>i\<bar>) of
        Some v \<Rightarrow> Whole (if i < 0 then - int v else int v)
      | None \<Rightarrow> if i < 0 then WNegInfinity else WInfinity)"

definition pow2 :: "int \<Rightarrow> real" where
  "pow2 p = (if 0 \<le> p then 2 ^ nat p else 1 / 2 ^ nat (- p))"

text \<open>\<open>b * 2^c \<le> a\<close>, for an exponent of either sign.\<close>

definition scaled_le :: "nat \<Rightarrow> int \<Rightarrow> nat \<Rightarrow> bool" where
  "scaled_le b c a = (if 0 \<le> c then b * 2 ^ nat c \<le> a else b \<le> a * 2 ^ nat (- c))"

text \<open>The exponent \<open>e\<close> with \<open>2^e \<le> a / b < 2^(e + 1)\<close>, for positive \<open>a\<close> and \<open>b\<close>.\<close>

definition binade :: "nat \<Rightarrow> nat \<Rightarrow> int" where
  "binade a b =
     (if scaled_le b (int (bit_length a) - int (bit_length b)) a
      then int (bit_length a) - int (bit_length b)
      else int (bit_length a) - int (bit_length b) - 1)"

text \<open>\<open>a / (b * 2^p)\<close> rounded to the nearest whole number, a tie to the even one.\<close>

definition scaled_round :: "nat \<Rightarrow> nat \<Rightarrow> int \<Rightarrow> nat" where
  "scaled_round a b p =
     (if 0 \<le> p then round_half_even a (b * 2 ^ nat p)
      else round_half_even (a * 2 ^ nat (- p)) b)"

text \<open>The value of a division: a finite double, one of the zeros, an infinity or
  \<^verbatim>\<open>NaN\<close>.\<close>

datatype number = Finite real | NegZero | Infinity | NegInfinity | NaN

text \<open>
  The double nearest to \<open>a / b\<close>, with the given sign: a multiple of \<open>2^p\<close>, where \<open>p\<close> leaves
  53 binary digits and is at least \<open>-1074\<close>, the exponent of the smallest double. A
  quotient that rounds to \<open>2^1024\<close> overflows to an infinity, one that rounds to nothing
  underflows to a zero.
\<close>

definition round_ratio :: "bool \<Rightarrow> nat \<Rightarrow> nat \<Rightarrow> int \<Rightarrow> number" where
  "round_ratio neg a b p =
     (if 2 ^ 1024 \<le> real (scaled_round a b p) * pow2 p
      then (if neg then NegInfinity else Infinity)
      else if scaled_round a b p = 0 then (if neg then NegZero else Finite 0)
      else Finite (if neg then - (real (scaled_round a b p) * pow2 p)
                   else real (scaled_round a b p) * pow2 p))"

definition w_negative :: "whole \<Rightarrow> bool" where
  "w_negative w = (case w of Whole i \<Rightarrow> i < 0 | WNegZero \<Rightarrow> True | WNegInfinity \<Rightarrow> True
                   | _ \<Rightarrow> False)"

definition w_zero :: "whole \<Rightarrow> bool" where
  "w_zero w = (case w of Whole i \<Rightarrow> i = 0 | WNegZero \<Rightarrow> True | _ \<Rightarrow> False)"

definition w_infinite :: "whole \<Rightarrow> bool" where
  "w_infinite w = (case w of WInfinity \<Rightarrow> True | WNegInfinity \<Rightarrow> True | _ \<Rightarrow> False)"

definition magnitude :: "whole \<Rightarrow> nat" where
  "magnitude w = (case w of Whole i \<Rightarrow> nat \<bar>i\<bar> | _ \<Rightarrow> 0)"

text \<open>
  \<^verbatim>\<open>x / y\<close>. Division does not throw: a zero divisor gives an infinity, or \<^verbatim>\<open>NaN\<close> for
  \<^verbatim>\<open>0 / 0\<close>; otherwise the exact quotient is rounded to a double.
\<close>

definition js_div :: "whole \<Rightarrow> whole \<Rightarrow> number" where
  "js_div x y =
     (if x = WNaN \<or> y = WNaN then NaN
      else if w_infinite x then
        (if w_infinite y then NaN
         else if w_negative x \<noteq> w_negative y then NegInfinity else Infinity)
      else if w_infinite y then (if w_negative x \<noteq> w_negative y then NegZero else Finite 0)
      else if w_zero y then
        (if w_zero x then NaN
         else if w_negative x \<noteq> w_negative y then NegInfinity else Infinity)
      else if w_zero x then (if w_negative x \<noteq> w_negative y then NegZero else Finite 0)
      else round_ratio (w_negative x \<noteq> w_negative y) (magnitude x) (magnitude y)
             (max (binade (magnitude x) (magnitude y) - 52) (- 1074)))"

text \<open>\<^verbatim>\<open>Math.ceil\<close>: a value in \<open>(-1, 0)\<close> rounds up to the negative zero.\<close>

definition Math_ceil :: "number \<Rightarrow> whole" where
  "Math_ceil q =
     (case q of
        Finite v \<Rightarrow> if \<lceil>v\<rceil> = 0 \<and> v < 0 then WNegZero else Whole \<lceil>v\<rceil>
      | NegZero \<Rightarrow> WNegZero
      | Infinity \<Rightarrow> WInfinity
      | NegInfinity \<Rightarrow> WNegInfinity
      | NaN \<Rightarrow> WNaN)"

text \<open>
  \<^verbatim>\<open>n.toString()\<close> prints the decimal with the fewest significant digits that still reads
  back as the same double, the closest one if there are several, the one with the even last
  digit if two are equally close. For a whole double \<open>x\<close> the candidates with \<open>j\<close> trailing
  zeros are the two multiples of \<open>10^j\<close> around \<open>x\<close>; the search goes from the most trailing
  zeros to none. Below \<open>10^21\<close> the decimal is printed in full, from \<open>10^21\<close> on in exponent
  form.
\<close>

definition pick :: "nat \<Rightarrow> nat \<Rightarrow> nat \<Rightarrow> nat option" where
  "pick x m s =
     (if round_nat (m * s) = Some x then
        (if round_nat (m * s + s) = Some x then
           Some (if x - m * s < m * s + s - x then m * s
                 else if m * s + s - x < x - m * s then m * s + s
                 else if even m then m * s else m * s + s)
         else Some (m * s))
      else if round_nat (m * s + s) = Some x then Some (m * s + s)
      else None)"

fun shortest_from :: "nat \<Rightarrow> nat \<Rightarrow> nat" where
  "shortest_from x j =
     (if j = 0 then x
      else case pick x (x div 10 ^ j) (10 ^ j) of
             Some c \<Rightarrow> c
           | None \<Rightarrow> shortest_from x (j - 1))"

declare shortest_from.simps [simp del]

definition shortest_decimal :: "nat \<Rightarrow> nat" where
  "shortest_decimal x = shortest_from x (length (string_of_nat x) - 1)"

definition significand :: "string \<Rightarrow> string" where
  "significand ds = rev (dropWhile (\<lambda>c. c = CHR ''0'') (rev ds))"

definition exponent_form :: "string \<Rightarrow> string" where
  "exponent_form ds =
     (if length (significand ds) = 1 then significand ds
      else hd ds # CHR ''.'' # tl (significand ds))
     @ ''e+'' @ string_of_nat (length ds - 1)"

definition nat_toString :: "nat \<Rightarrow> string" where
  "nat_toString n =
     (if shortest_decimal n < 10 ^ 21 then string_of_nat (shortest_decimal n)
      else exponent_form (string_of_nat (shortest_decimal n)))"

definition whole_toString :: "whole \<Rightarrow> string" where
  "whole_toString w =
     (case w of
        Whole i \<Rightarrow> if i < 0 then CHR ''-'' # nat_toString (nat (- i)) else nat_toString (nat i)
      | WNegZero \<Rightarrow> ''0''
      | WInfinity \<Rightarrow> ''Infinity''
      | WNegInfinity \<Rightarrow> ''-Infinity''
      | WNaN \<Rightarrow> ''NaN'')"

text \<open>\<^verbatim>\<open>n.toString()\<close> for a configured count.\<close>

definition number_toString :: "int \<Rightarrow> string" where
  "number_toString i = whole_toString (number_of_int i)"

subsection \<open>Provisioned resources\<close>

text \<open>
  Provisioning is an external collaborator. A function that registers resources returns
  them, in order, as a list of (type, logical name) next to its result; when it throws, the
  list holds what was registered before the throw. Resources registered inside a callback
  on a provider output are listed where the callback is installed. What the provider
  answers (stack name, availability zones, node roles, addresses) is an \<open>Environment\<close>.
\<close>

datatype resource = Resource string string

record Environment =
  Stack :: string
  AvailabilityZones :: "string list"
  NodeRoles :: "string list"
  output_of :: "resource \<Rightarrow> string \<Rightarrow> string"

text \<open>The fields of \<^verbatim>\<open>Cluster\<close> that the resolver reads; the kubeconfig and the
  provider handle are opaque and left out.\<close>

record Cluster =
  cluster_name :: string
  securityGroup :: string
  instanceRoles :: "string list"

definition eksCluster ::
  "Environment \<Rightarrow> string \<Rightarrow> EKSClusterConfig \<Rightarrow> PersistenceConfig
     \<Rightarrow> resource list \<times> Cluster" where
  "eksCluster env name config persistenceConfig =
     ([Resource ''eks.Cluster'' name, Resource ''eks.NodeGroup'' (name @ ''-temporal'')] @
      (case Cassandra persistenceConfig of
         Some cassandraConfig \<Rightarrow> [Resource ''eks.NodeGroup'' (name @ ''-cassandra'')]
       | None \<Rightarrow> []),
      \<lparr>cluster_name = output_of env (Resource ''eks.Cluster'' name) ''name'',
       securityGroup = output_of env (Resource ''eks.Cluster'' name) ''nodeSecurityGroup.id'',
       instanceRoles = NodeRoles env\<rparr>)"

definition createCluster ::
  "Environment \<Rightarrow> ClusterConfig \<Rightarrow> PersistenceConfig
     \<Rightarrow> resource list \<times> (error + Cluster)" where
  "createCluster env clusterConfig persistenceConfig =
     (case EKS clusterConfig of
        Some eks \<Rightarrow>
          (case eksCluster env (Stack env) eks persistenceConfig of (rs, c) \<Rightarrow> (rs, Inr c))
      | None \<Rightarrow> ([], Inl (InvalidConfiguration ''invalid cluster config'')))"

text \<open>The engine table at the head of \<^verbatim>\<open>rdsPersistence\<close>:
  \<open>(dbType, dbPort, dbPrefix, dbExtras)\<close>, or the throw.\<close>

definition rds_engine :: "string \<Rightarrow> error + (string \<times> int \<times> string \<times> ConfigMapData)" where
  "rds_engine engine =
     (if engine = ''postgres'' \<or> engine = ''aurora-postgresql''
      then Inr (''postgresql'', 5432, ''POSTGRES'', Map.empty)
      else if engine = ''mysql'' \<or> engine = ''aurora-mysql''
      then Inr (''mysql'', 3306, ''MYSQL'', [''MYSQL_TX_ISOLATION_COMPAT'' \<mapsto> ''true''])
      else Inl (InvalidConfiguration ''invalid RDS config''))"

text \<open>The database behind the security group: an Aurora cluster with one instance per
  zone, a single instance, or a multi-zone cluster; with the address it answers.\<close>

definition rds_database ::
  "Environment \<Rightarrow> string \<Rightarrow> RDSPersistenceConfig \<Rightarrow> resource list \<times> string" where
  "rds_database env name config =
     (if Engine config = ''aurora-postgresql'' \<or> Engine config = ''aurora-mysql''
      then (Resource ''aws.rds.Cluster'' name #
              map (\<lambda>z. Resource ''aws.rds.ClusterInstance'' (name @ ''-'' @ z))
                (AvailabilityZones env),
            output_of env (Resource ''aws.rds.Cluster'' name) ''endpoint'')
      else if SingleAZ config
      then ([Resource ''aws.rds.Instance'' name],
            output_of env (Resource ''aws.rds.Instance'' name) ''address'')
      else ([Resource ''aws.rds.Cluster'' name],
            output_of env (Resource ''aws.rds.Cluster'' name) ''endpoint''))"

definition rdsPersistence ::
  "Environment \<Rightarrow> TemporalConfig \<Rightarrow> string \<Rightarrow> RDSPersistenceConfig \<Rightarrow> string
     \<Rightarrow> resource list \<times> (error + ConfigMapData)" where
  "rdsPersistence env temporalConfig name config sg =
     (case rds_engine (Engine config) of
        Inl e \<Rightarrow> ([], Inl e)
      | Inr (dbType, dbPort, dbPrefix, dbExtras) \<Rightarrow>
          (case rds_database env name config of
             (db, endpoint) \<Rightarrow>
               ([Resource ''aws.ec2.SecurityGroup'' (name @ ''-rds''),
                 Resource ''aws.ec2.SecurityGroupRule'' (name @ ''-rds'')] @ db,
                Inr ([''NUM_HISTORY_SHARDS'' \<mapsto> number_toString (Shards (History temporalConfig)),
                      ''DB'' \<mapsto> dbType,
                      ''DB_PORT'' \<mapsto> number_toString dbPort,
                      dbPrefix @ ''_SEEDS'' \<mapsto> endpoint,
                      dbPrefix @ ''_USER'' \<mapsto> ''temporal'',
                      dbPrefix @ ''_PWD'' \<mapsto> ''temporal'',
                      ''DBNAME'' \<mapsto> ''temporal_persistence''] ++ dbExtras))))"

definition role_attachments :: "string \<Rightarrow> string list \<Rightarrow> resource list" where
  "role_attachments pre roles =
     map (\<lambda>i. Resource ''aws.iam.RolePolicyAttachment'' (pre @ string_of_nat i))
       [0 ..< length roles]"

definition cassandraPersistence ::
  "TemporalConfig \<Rightarrow> string \<Rightarrow> CassandraPersistenceConfig \<Rightarrow> Cluster
     \<Rightarrow> resource list \<times> ConfigMapData" where
  "cassandraPersistence temporalConfig name config cluster =
     ([Resource ''k8s.core.v1.Namespace'' ''cassandra'',
       Resource ''aws.eks.Addon'' ''aws-ebs-csi-driver''] @
      role_attachments ''ebs-driver-role-policy-'' (instanceRoles cluster) @
      [Resource ''k8s.helm.v3.Chart'' ''cassandra''],
      [''NUM_HISTORY_SHARDS'' \<mapsto> number_toString (Shards (History temporalConfig)),
       ''DB'' \<mapsto> ''cassandra'',
       ''DB_PORT'' \<mapsto> ''9042'',
       ''CASSANDRA_SEEDS'' \<mapsto> ''cassandra.cassandra.svc.cluster.local'',
       ''CASSANDRA_USER'' \<mapsto> ''temporal'',
       ''CASSANDRA_PASSWORD'' \<mapsto> ''temporal'',
       ''CASSANDRA_REPLICATION_FACTOR'' \<mapsto> ''3'',
       ''DBNAME'' \<mapsto> ''temporal_persistence''])"

definition opensearchVisibility ::
  "string \<Rightarrow> OpenSearchConfig \<Rightarrow> Cluster \<Rightarrow> resource list \<times> ConfigMapData" where
  "opensearchVisibility name config cluster =
     ([Resource ''aws.ec2.SecurityGroup'' (name @ ''-opensearch''),
       Resource ''aws.ec2.SecurityGroupRule'' (name @ ''-opensearch''),
       Resource ''aws.opensearch.Domain'' name,
       Resource ''aws.iam.Policy'' ''opensearch-access''] @
      role_attachments ''opensearch-role-policy-'' (instanceRoles cluster) @
      [Resource ''k8s.apps.v1.Deployment'' ''opensearch-proxy'',
       Resource ''k8s.core.v1.Service'' ''opensearch-proxy''],
      [''ENABLE_ES'' \<mapsto> ''true'',
       ''ES_SCHEMA'' \<mapsto> ''http'',
       ''ES_SEEDS'' \<mapsto> ''opensearch-proxy.default.svc.cluster.local'',
       ''ES_PORT'' \<mapsto> ''80''])"

definition createAdvancedVisibility ::
  "VisibilityConfig option \<Rightarrow> Cluster \<Rightarrow> resource list \<times> ConfigMapData" where
  "createAdvancedVisibility config cluster =
     (case config of
        None \<Rightarrow> ([], Map.empty)
      | Some c \<Rightarrow>
          (case OpenSearch c of
             Some os \<Rightarrow> opensearchVisibility ''temporal-visibility'' os cluster
           | None \<Rightarrow> ([], Map.empty)))"

text \<open>The first half of \<^verbatim>\<open>createPersistence\<close>: the \<^verbatim>\<open>if\<close>/\<^verbatim>\<open>else if\<close> that fills
  the local \<^verbatim>\<open>persistence\<close>, \<open>None\<close> when neither branch is taken.\<close>

definition select_persistence ::
  "Environment \<Rightarrow> TemporalConfig \<Rightarrow> PersistenceConfig \<Rightarrow> Cluster
     \<Rightarrow> resource list \<times> (error + ConfigMapData option)" where
  "select_persistence env temporalConfig config cluster =
     (case RDS config of
        Some rds \<Rightarrow>
          (case rdsPersistence env temporalConfig (Stack env) rds (securityGroup cluster) of
             (rs, Inl e) \<Rightarrow> (rs, Inl e)
           | (rs, Inr p) \<Rightarrow> (rs, Inr (Some p)))
      | None \<Rightarrow>
          (case Cassandra config of
             Some cassandra \<Rightarrow>
               (case cassandraPersistence temporalConfig (Stack env) cassandra cluster of
                  (rs, p) \<Rightarrow> (rs, Inr (Some p)))
           | None \<Rightarrow> ([], Inr None)))"

definition createPersistence ::
  "Environment \<Rightarrow> TemporalConfig \<Rightarrow> PersistenceConfig \<Rightarrow> Cluster
     \<Rightarrow> resource list \<times> (error + ConfigMapData)" where
  "createPersistence env temporalConfig config cluster =
     (case select_persistence env temporalConfig config cluster of
        (rs, Inl e) \<Rightarrow> (rs, Inl e)
      | (rs, Inr None) \<Rightarrow> (rs, Inl (InvalidConfiguration ''invalid persistence config''))
      | (rs, Inr (Some persistence)) \<Rightarrow>
          (case createAdvancedVisibility (Visibility config) cluster of
             (vs, visibility) \<Rightarrow> (rs @ vs, Inr (persistence ++ visibility))))"

text \<open>The top of the program: the cluster is created, then the persistence.\<close>

definition resolve ::
  "Environment \<Rightarrow> TemporalConfig \<Rightarrow> ClusterConfig \<Rightarrow> PersistenceConfig
     \<Rightarrow> resource list \<times> (error + ConfigMapData)" where
  "resolve env temporalConfig clusterConfig persistenceConfig =
     (case createCluster env clusterConfig persistenceConfig of
        (rs, Inl e) \<Rightarrow> (rs, Inl e)
      | (rs, Inr cluster) \<Rightarrow>
          (case createPersistence env temporalConfig persistenceConfig cluster of
             (ps, r) \<Rightarrow> (rs @ ps, r)))"

definition workerConfig :: "TemporalConfig \<Rightarrow> ConfigMapData" where
  "workerConfig temporalConfig =
     [''TEMPORAL_WORKFLOW_TASK_POLLERS'' \<mapsto>
        number_toString (WorkflowPollers (Workers temporalConfig)),
      ''TEMPORAL_ACTIVITY_TASK_POLLERS'' \<mapsto>
        number_toString (ActivityPollers (Workers temporalConfig))]"

definition soakTestConfig :: "TemporalConfig \<Rightarrow> ConfigMapData" where
  "soakTestConfig temporalConfig =
     [''CONCURRENT_WORKFLOWS'' \<mapsto>
        whole_toString
          (Math_ceil (js_div (number_of_int (ConcurrentWorkflows (SoakTest temporalConfig)))
                             (number_of_int (FrontendConfig.Pods (Frontend temporalConfig)))))]"

text \<open>The transformation lists handed to the core-service and benchmark groups.\<close>

definition temporal_transformations :: "TemporalConfig \<Rightarrow> transformation list" where
  "temporal_transformations temporalConfig =
     [Scale ''temporal-frontend'' (FrontendConfig.Pods (Frontend temporalConfig)),
      Limits ''temporal-frontend'' (FrontendConfig.CPU (Frontend temporalConfig))
        (FrontendConfig.Memory (Frontend temporalConfig)),
      Scale ''temporal-history'' (HistoryConfig.Pods (History temporalConfig)),
      Limits ''temporal-history'' (HistoryConfig.CPU (History temporalConfig))
        (HistoryConfig.Memory (History temporalConfig)),
      Scale ''temporal-matching'' (MatchingConfig.Pods (Matching temporalConfig)),
      Limits ''temporal-matching'' (MatchingConfig.CPU (Matching temporalConfig))
        (MatchingConfig.Memory (Matching temporalConfig)),
      Tolerate ''temporal'']"

definition benchmark_transformations :: "TemporalConfig \<Rightarrow> transformation list" where
  "benchmark_transformations temporalConfig =
     [Scale ''benchmark-workers'' (WorkerConfig.Pods (Workers temporalConfig)),
      Limits ''benchmark-workers'' (WorkerConfig.CPU (Workers temporalConfig))
        (WorkerConfig.Memory (Workers temporalConfig)),
      Scale ''benchmark-soak-test'' (FrontendConfig.Pods (Frontend temporalConfig))]"

section \<open>Paths that do not interfere\<close>

text \<open>
  Two property names address different slots of a value when they differ and are not two
  spellings of one array index. Two paths diverge when, after a common prefix, they
  continue with names of different slots: neither is then a prefix of the other, and an
  assignment through one leaves the other alone.
\<close>

definition slot_neq :: "string \<Rightarrow> string \<Rightarrow> bool" where
  "slot_neq k k' =
     (k \<noteq> k' \<and> (case (array_index k, array_index k') of (Some i, Some j) \<Rightarrow> i \<noteq> j | _ \<Rightarrow> True))"

fun diverge :: "string list \<Rightarrow> string list \<Rightarrow> bool" where
  "diverge (k # ks) (k' # ks') = (if k = k' then diverge ks ks' else slot_neq k k')"
| "diverge _ _ = False"

definition readable :: "string list \<Rightarrow> json \<Rightarrow> bool" where
  "readable r t = (\<exists>c. get_path r t = Inr c)"

text \<open>
  What a transformation does to one object, as a list of elementary steps: an assignment
  through a path, or a read through a path whose value is dropped and which can only
  throw.
\<close>

datatype op = Write "string list" json | Check "string list"

fun exec :: "op \<Rightarrow> json \<Rightarrow> error + json" where
  "exec (Write p v) t = assign p v t"
| "exec (Check r) t = (case get_path r t of Inl e \<Rightarrow> Inl e | Inr c \<Rightarrow> Inr t)"

fun execs :: "op list \<Rightarrow> json \<Rightarrow> error + json" where
  "execs [] t = Inr t"
| "execs (x # xs) t = bindE (exec x t) (execs xs)"

fun compat :: "op \<Rightarrow> op \<Rightarrow> bool" where
  "compat (Write p v) (Write q w) = (p = q \<or> diverge p q)"
| "compat (Write p v) (Check r) = (prefix r p \<or> diverge p r)"
| "compat (Check r) (Write p v) = (prefix r p \<or> diverge p r)"
| "compat (Check r) (Check r') = True"

text \<open>All transformations of a list, one after the other, on one object.\<close>

fun run :: "(json \<Rightarrow> error + json) list \<Rightarrow> json \<Rightarrow> error + json" where
  "run [] t = Inr t"
| "run (f # fs) t = bindE (f t) (run fs)"

text \<open>The same pass in the other order: the objects are walked once and the whole list
  is applied to each.\<close>

definition apply_per_object ::
  "(json \<Rightarrow> error + json) list \<Rightarrow> json list \<Rightarrow> error + json list" where
  "apply_per_object fs g = for_each (run fs) g"

text \<open>The steps of each generator, given what the guard reads from the object:
  \<open>kv\<close> is the outcome of reading \<^verbatim>\<open>obj.kind\<close>, \<open>nv\<close> that of
  \<^verbatim>\<open>obj.metadata.name\<close>.\<close>

definition target_ops ::
  "string \<Rightarrow> string \<Rightarrow> error + json \<Rightarrow> error + json \<Rightarrow> op list \<Rightarrow> op list" where
  "target_ops kind name kv nv body =
     Check [''kind''] #
       (if kv = Inr (JStr kind)
        then Check [''metadata'', ''name''] # (if nv = Inr (JStr name) then body else [])
        else [])"

definition write_if :: "string option \<Rightarrow> string list \<Rightarrow> op list" where
  "write_if s path = (if truthy s then [Write path (JStr (the s))] else [])"

fun compile :: "transformation \<Rightarrow> error + json \<Rightarrow> error + json \<Rightarrow> op list" where
  "compile (Scale name replicas) kv nv =
     target_ops ''Deployment'' name kv nv [Write [''spec'', ''replicas''] (JNum replicas)]"
| "compile (Limits name cpu memory) kv nv =
     target_ops ''Deployment'' name kv nv
       (Check container_path #
        write_if (cpu_request cpu) (container_path @ [''resources'', ''requests'', ''cpu'']) @
        write_if (cpu_limit cpu) (container_path @ [''resources'', ''limits'', ''cpu'']) @
        write_if (memory_request memory) (container_path @ [''resources'', ''requests'', ''memory'']) @
        write_if (memory_limit memory) (container_path @ [''resources'', ''limits'', ''memory'']))"
| "compile (Tolerate v) kv nv =
     Check [''kind''] #
       (if kv = Inr (JStr ''Deployment'')
        then [Write [''spec'', ''template'', ''spec'', ''tolerations''] (toleration v)]
        else [])"

definition compile_all :: "transformation list \<Rightarrow> error + json \<Rightarrow> error + json \<Rightarrow> op list" where
  "compile_all trs kv nv = concat (map (\<lambda>tr. compile tr kv nv) trs)"

definition write_paths :: "string list list" where
  "write_paths =
     [[''spec'', ''replicas''],
      [''spec'', ''template'', ''spec'', ''tolerations''],
      container_path @ [''resources'', ''requests'', ''cpu''],
      container_path @ [''resources'', ''limits'', ''cpu''],
      container_path @ [''resources'', ''requests'', ''memory''],
      container_path @ [''resources'', ''limits'', ''memory'']]"

definition check_paths :: "string list list" where
  "check_paths = [[''kind''], [''metadata'', ''name''], container_path]"

fun allowed :: "op \<Rightarrow> bool" where
  "allowed (Write p v) = (p \<in> set write_paths)"
| "allowed (Check r) = (r \<in> set check_paths)"

text \<open>The values that accept a property assignment: objects and arrays.\<close>

definition settable :: "json \<Rightarrow> bool" where
  "settable t = (case t of JObj m \<Rightarrow> True | JArr xs ps \<Rightarrow> True | _ \<Rightarrow> False)"

text \<open>The four fields the Limit Setter may assign.\<close>

definition limit_paths :: "string list list" where
  "limit_paths =
     [container_path @ [''resources'', ''requests'', ''cpu''],
      container_path @ [''resources'', ''limits'', ''cpu''],
      container_path @ [''resources'', ''requests'', ''memory''],
      container_path @ [''resources'', ''limits'', ''memory'']]"

section \<open>Sample inputs\<close>

text \<open>Small manifests and configurations on which the theorems below are exercised.\<close>

definition sample_deployment :: "string \<Rightarrow> json" where
  "sample_deployment name =
     obj_lit
       [(''kind'', JStr ''Deployment''),
        (''metadata'', obj_lit [(''name'', JStr name)]),
        (''spec'', obj_lit
           [(''replicas'', JNum 1),
            (''template'', obj_lit
               [(''spec'', obj_lit
                  [(''containers'', arr_lit
                     [obj_lit
                        [(''name'', JStr ''main''),
                         (''resources'', obj_lit
                            [(''requests'',
                                obj_lit [(''cpu'', JStr ''100m''), (''memory'', JStr ''1Gi'')]),
                             (''limits'',
                                obj_lit [(''cpu'', JStr ''200m''), (''memory'', JStr ''2Gi'')])])]])])])])]"

definition sample_service :: json where
  "sample_service =
     obj_lit
       [(''kind'', JStr ''Service''),
        (''metadata'', obj_lit [(''name'', JStr ''temporal-frontend'')]),
        (''spec'', obj_lit [(''ports'', arr_lit [obj_lit [(''port'', JNum 7233)]])])]"

definition sample_group :: "json list" where
  "sample_group =
     [sample_deployment ''temporal-frontend'', sample_deployment ''temporal-history'',
      sample_deployment ''temporal-matching'', sample_service]"


definition sample_datasource :: json where
  "sample_datasource =
     obj_lit
       [(''kind'', JStr ''GrafanaDatasource''),
        (''metadata'', obj_lit [(''name'', JStr ''cloudwatch'')]),
        (''spec'', obj_lit
           [(''datasource'', obj_lit
               [(''type'', JStr ''cloudwatch''),
                (''url'', JStr ''https://monitoring.example/''),
                (''jsonData'', obj_lit [(''sigV4Auth'', JBool False)])])])]"

definition sample_limits :: CPULimits where
  "sample_limits = \<lparr>CPULimits.request = Some ''500m'', CPULimits.limit = None\<rparr>"

definition sample_temporal :: TemporalConfig where
  "sample_temporal =
     \<lparr>Frontend = \<lparr>FrontendConfig.Pods = 3, FrontendConfig.CPU = Some sample_limits,
                  FrontendConfig.Memory = None\<rparr>,
      History = \<lparr>Shards = 512, HistoryConfig.Pods = 2,
                 HistoryConfig.CPU = Some \<lparr>CPULimits.request = Some ''1'', CPULimits.limit = Some ''2''\<rparr>,
                 HistoryConfig.Memory =
                   Some \<lparr>MemoryLimits.request = Some ''4Gi'', limit = Some []\<rparr>\<rparr>,
      Matching = \<lparr>TaskQueuePartitions = 4, MatchingConfig.Pods = 2,
                  MatchingConfig.CPU = None, MatchingConfig.Memory = None\<rparr>,
      Workers = \<lparr>WorkerConfig.Pods = 4, WorkflowPollers = 16, ActivityPollers = 8,
                 WorkerConfig.CPU = None, WorkerConfig.Memory = None\<rparr>,
      SoakTest = \<lparr>ConcurrentWorkflows = 10\<rparr>\<rparr>"

definition large_soak_temporal :: TemporalConfig where
  "large_soak_temporal = sample_temporal\<lparr>SoakTest := \<lparr>ConcurrentWorkflows = 2 ^ 54\<rparr>\<rparr>"

definition sample_env :: Environment where
  "sample_env =
     \<lparr>Stack = ''bench'', AvailabilityZones = [''us-west-2a'', ''us-west-2b''],
      NodeRoles = [''node-role''],
      output_of = (\<lambda>r a. ''db.internal'')\<rparr>"

definition sample_cluster :: Cluster where
  "sample_cluster =
     \<lparr>cluster_name = ''bench'', securityGroup = ''sg-1'', instanceRoles = [''node-role'']\<rparr>"

definition sample_rds :: "string \<Rightarrow> RDSPersistenceConfig" where
  "sample_rds engine =
     \<lparr>RDSPersistenceConfig.EnvironmentStackName = ''env'', Engine = engine,
      RDSPersistenceConfig.EngineVersion = ''14'',
      RDSPersistenceConfig.InstanceType = ''db.r5.large'', SingleAZ = True\<rparr>"

definition sample_cassandra :: CassandraPersistenceConfig where
  "sample_cassandra = \<lparr>NodeType = ''m5.large'', NodeCount = 3, ReplicaCount = 3\<rparr>"

definition sample_eks :: ClusterConfig where
  "sample_eks =
     \<lparr>EKS = Some \<lparr>EKSClusterConfig.EnvironmentStackName = ''env'',
                  EKSClusterConfig.NodeType = ''m5.large'',
                  EKSClusterConfig.NodeCount = 3\<rparr>\<rparr>"

definition sample_persistence :: "string \<Rightarrow> PersistenceConfig" where
  "sample_persistence engine =
     \<lparr>RDS = Some (sample_rds engine), Cassandra = Some sample_cassandra, Visibility = None\<rparr>"

definition sample_cassandra_only :: PersistenceConfig where
  "sample_cassandra_only = \<lparr>RDS = None, Cassandra = Some sample_cassandra, Visibility = None\<rparr>"

definition sample_no_persistence :: PersistenceConfig where
  "sample_no_persistence = \<lparr>RDS = None, Cassandra = None, Visibility = None\<rparr>"

section \<open>Laws of reading and assigning\<close>

lemma length_array_put: "length (array_put i v xs) = max (Suc i) (length xs)"
  by (auto simp: array_put_def)

lemma nth_array_put:
  "j < max (Suc i) (length xs) \<Longrightarrow>
   array_put i v xs ! j = (if j = i then v else if j < length xs then xs ! j else JUndefined)"
  by (auto simp: array_put_def nth_append nth_list_update)

lemma array_put_commute:
  "i \<noteq> j \<Longrightarrow> array_put j w (array_put i v xs) = array_put i v (array_put j w xs)"
  by (rule nth_equalityI) (auto simp: length_array_put nth_array_put)

lemma array_put_overwrite: "array_put i w (array_put i v xs) = array_put i w xs"
  by (rule nth_equalityI) (auto simp: length_array_put nth_array_put)

lemma get_prop_error: "get_prop k t = Inl e \<Longrightarrow> e = TypeError"
  by (auto simp: get_prop_def split: json.splits)

lemma set_prop_error: "set_prop k v t = Inl e \<Longrightarrow> e = TypeError"
  by (auto simp: set_prop_def split: json.splits)

lemma set_prop_fail_indep: "set_prop k v t = Inl e \<Longrightarrow> set_prop k' v' t = Inl e"
  by (auto simp: set_prop_def split: json.splits)

lemma set_prop_get_same: "set_prop k v t = Inr t' \<Longrightarrow> get_prop k t' = Inr v"
  by (cases t; cases "array_index k")
     (auto simp: set_prop_def get_prop_def own_prop_def length_array_put nth_array_put)

lemma set_prop_get_other:
  "slot_neq k k' \<Longrightarrow> set_prop k v t = Inr t' \<Longrightarrow> get_prop k' t' = get_prop k' t"
  by (cases t; cases "array_index k"; cases "array_index k'")
     (auto simp: set_prop_def get_prop_def own_prop_def slot_neq_def length_array_put nth_array_put)

lemma set_prop_overwrite: "set_prop k v t = Inr t1 \<Longrightarrow> set_prop k v' t1 = set_prop k v' t"
  by (cases t; cases "array_index k") (auto simp: set_prop_def array_put_overwrite)

lemma set_prop_commute:
  "slot_neq k k' \<Longrightarrow>
   bindE (set_prop k v t) (set_prop k' v') = bindE (set_prop k' v' t) (set_prop k v)"
  by (cases t; cases "array_index k"; cases "array_index k'")
     (auto simp: set_prop_def bindE_def slot_neq_def fmupd_reorder_neq array_put_commute)

lemma slot_neq_sym: "slot_neq k k' \<Longrightarrow> slot_neq k' k"
  by (auto simp: slot_neq_def split: option.splits)

lemma diverge_sym: "diverge p q \<Longrightarrow> diverge q p"
  by (induction p q rule: diverge.induct) (auto simp: slot_neq_sym split: if_splits)

lemma assign_error: "assign p v t = Inl e \<Longrightarrow> e = TypeError"
proof (induction p arbitrary: t e)
  case Nil
  then show ?case by simp
next
  case (Cons k ks)
  then show ?case
    by (auto split: sum.splits dest: get_prop_error set_prop_error)
qed

lemma get_path_error: "get_path p t = Inl e \<Longrightarrow> e = TypeError"
  by (induction p arbitrary: t) (auto split: sum.splits dest: get_prop_error)

lemma assign_fail_indep: "assign p v t = Inl e \<Longrightarrow> assign p v' t = Inl e"
proof (induction p arbitrary: t e)
  case Nil
  then show ?case by simp
next
  case (Cons k ks)
  show ?case
  proof (cases "get_prop k t")
    case (Inl e')
    with Cons.prems show ?thesis by simp
  next
    case (Inr c)
    have e: "e = TypeError" using Cons.prems by (rule assign_error)
    show ?thesis
    proof (cases "assign ks v c")
      case (Inl e1)
      with Cons.IH have "assign ks v' c = Inl e1" by blast
      with Inr Inl Cons.prems show ?thesis by simp
    next
      case r: (Inr c1)
      with Inr Cons.prems have f: "set_prop k c1 t = Inl e" by simp
      show ?thesis
      proof (cases "assign ks v' c")
        case (Inl e2)
        then have "e2 = TypeError" by (rule assign_error)
        with Inl Inr e show ?thesis by simp
      next
        case (Inr c2)
        from f have "set_prop k c2 t = Inl e" by (rule set_prop_fail_indep)
        with Inr \<open>get_prop k t = Inr c\<close> show ?thesis by simp
      qed
    qed
  qed
qed

lemma assign_get_same: "assign p v t = Inr t' \<Longrightarrow> get_path p t' = Inr v"
  by (induction p arbitrary: t t') (auto split: sum.splits simp: set_prop_get_same)

lemma assign_get_diverge:
  "diverge p q \<Longrightarrow> assign p v t = Inr t' \<Longrightarrow> get_path q t' = get_path q t"
proof (induction p q arbitrary: t t' rule: diverge.induct)
  case (1 k ks k' ks')
  from "1.prems"(2) obtain c c' where c: "get_prop k t = Inr c" and c': "assign ks v c = Inr c'"
    and t': "set_prop k c' t = Inr t'"
    by (auto split: sum.splits)
  show ?case
  proof (cases "k = k'")
    case True
    with "1.prems"(1) have d: "diverge ks ks'" by simp
    have "get_path ks' c' = get_path ks' c" using "1.IH" True d c' by blast
    moreover have "get_prop k t' = Inr c'" using t' by (rule set_prop_get_same)
    ultimately show ?thesis using True c by simp
  next
    case False
    with "1.prems"(1) have "slot_neq k k'" by simp
    then have "get_prop k' t' = get_prop k' t" using t' by (rule set_prop_get_other)
    then show ?thesis by simp
  qed
qed simp_all

lemma assign_readable_prefix:
  "assign (r @ s) v t = Inr t' \<Longrightarrow> readable r t \<and> readable r t'"
proof (induction r arbitrary: t t')
  case Nil
  then show ?case by (simp add: readable_def)
next
  case (Cons k ks)
  from Cons.prems obtain c c' where c: "get_prop k t = Inr c"
    and c': "assign (ks @ s) v c = Inr c'" and t': "set_prop k c' t = Inr t'"
    by (auto split: sum.splits)
  from Cons.IH [OF c'] have "readable ks c" "readable ks c'" by simp_all
  moreover have "get_prop k t' = Inr c'" using t' by (rule set_prop_get_same)
  ultimately show ?case using c by (simp add: readable_def)
qed

lemma assign_overwrite: "assign p v t = Inr t1 \<Longrightarrow> assign p v' t1 = assign p v' t"
proof (induction p arbitrary: t t1)
  case Nil
  then show ?case by simp
next
  case (Cons k ks)
  from Cons.prems obtain c c' where c: "get_prop k t = Inr c"
    and c': "assign ks v c = Inr c'" and t1: "set_prop k c' t = Inr t1"
    by (auto split: sum.splits)
  have g: "get_prop k t1 = Inr c'" using t1 by (rule set_prop_get_same)
  have a: "assign ks v' c' = assign ks v' c" using c' by (rule Cons.IH)
  have s: "\<And>x. set_prop k x t1 = set_prop k x t" using t1 by (rule set_prop_overwrite)
  show ?case using c g a s by (simp split: sum.splits)
qed

lemma bindE_simps [simp]: "bindE (Inl e) f = Inl e" "bindE (Inr x) f = f x"
  by (simp_all add: bindE_def)

lemma assign_commute:
  "diverge p q \<Longrightarrow>
   bindE (assign p v t) (assign q w) = bindE (assign q w t) (assign p v)"
proof (induction p q arbitrary: t rule: diverge.induct)
  case (1 k ks k' ks')
  show ?case
  proof (cases "k = k'")
    case True
    with "1.prems" have d: "diverge ks ks'" by simp
    show ?thesis
    proof (cases "get_prop k t")
      case (Inl e)
      with True show ?thesis by simp
    next
      case (Inr c)
      have ih: "bindE (assign ks v c) (assign ks' w) = bindE (assign ks' w c) (assign ks v)"
        using "1.IH" True d by blast
      have one: "bindE (assign (k # ks) v t) (assign (k # ks') w)
          = bindE (bindE (assign ks v c) (assign ks' w)) (\<lambda>x. set_prop k x t)" for ks ks' v w
      proof (cases "assign ks v c")
        case (Inl e)
        with Inr show ?thesis by simp
      next
        case c1: (Inr c1)
        show ?thesis
        proof (cases "set_prop k c1 t")
          case (Inl e)
          then have e: "e = TypeError" by (rule set_prop_error)
          have "bindE (assign ks' w c1) (\<lambda>x. set_prop k x t) = Inl TypeError"
          proof (cases "assign ks' w c1")
            case l: (Inl e')
            then have "e' = TypeError" by (rule assign_error)
            with l show ?thesis by simp
          next
            case r: (Inr c2)
            from Inl have "set_prop k c2 t = Inl e" by (rule set_prop_fail_indep)
            with r e show ?thesis by simp
          qed
          with Inr c1 Inl e show ?thesis by simp
        next
          case t1: (Inr t1)
          have g: "get_prop k t1 = Inr c1" using t1 by (rule set_prop_get_same)
          have s: "\<And>x. set_prop k x t1 = set_prop k x t" using t1 by (rule set_prop_overwrite)
          show ?thesis using Inr c1 t1 g s by (simp add: bindE_def split: sum.splits)
        qed
      qed
      have "bindE (assign (k # ks) v t) (assign (k # ks') w)
          = bindE (bindE (assign ks v c) (assign ks' w)) (\<lambda>x. set_prop k x t)"
        by (rule one)
      also have "\<dots> = bindE (bindE (assign ks' w c) (assign ks v)) (\<lambda>x. set_prop k x t)"
        by (simp only: ih)
      also have "\<dots> = bindE (assign (k # ks') w t) (assign (k # ks) v)"
        by (rule one [symmetric])
      finally show ?thesis using True by (simp only:)
    qed
  next
    case False
    with "1.prems" have n: "slot_neq k k'" by simp
    then have n': "slot_neq k' k" by (rule slot_neq_sym)
    have half: "bindE (assign (a # as) x t) (assign (b # bs) y)
        = bindE (get_prop a t) (\<lambda>ca. bindE (get_prop b t) (\<lambda>cb.
            bindE (assign as x ca) (\<lambda>ca'. bindE (assign bs y cb) (\<lambda>cb'.
              bindE (set_prop a ca' t) (set_prop b cb')))))"
      if ab: "slot_neq a b" for a as x b bs y
    proof (cases "get_prop a t")
      case (Inl e)
      then show ?thesis by simp
    next
      case ca: (Inr ca)
      obtain cb where cb: "get_prop b t = Inr cb"
        using ca by (cases t) (auto simp: get_prop_def)
      show ?thesis
      proof (cases "assign as x ca")
        case (Inl e)
        with ca cb show ?thesis by simp
      next
        case ca': (Inr ca')
        show ?thesis
        proof (cases "set_prop a ca' t")
          case (Inl e)
          then have e: "e = TypeError" by (rule set_prop_error)
          have "bindE (assign bs y cb) (\<lambda>cb'. bindE (set_prop a ca' t) (set_prop b cb'))
              = Inl TypeError"
          proof (cases "assign bs y cb")
            case l: (Inl e')
            then have "e' = TypeError" by (rule assign_error)
            with l show ?thesis by simp
          next
            case (Inr cb')
            with Inl e show ?thesis by simp
          qed
          with ca cb ca' Inl e show ?thesis by simp
        next
          case t1: (Inr t1)
          have "get_prop b t1 = get_prop b t" using ab t1 by (rule set_prop_get_other)
          with ca cb ca' t1 show ?thesis by (simp add: bindE_def split: sum.splits)
        qed
      qed
    qed
    have swap: "bindE (get_prop k t) (\<lambda>ca. bindE (get_prop k' t) (\<lambda>cb.
            bindE (assign ks v ca) (\<lambda>ca'. bindE (assign ks' w cb) (\<lambda>cb'.
              bindE (set_prop k ca' t) (set_prop k' cb')))))
        = bindE (get_prop k' t) (\<lambda>cb. bindE (get_prop k t) (\<lambda>ca.
            bindE (assign ks' w cb) (\<lambda>cb'. bindE (assign ks v ca) (\<lambda>ca'.
              bindE (set_prop k' cb' t) (set_prop k ca')))))"
    proof (cases "get_prop k t")
      case (Inl e)
      then have "e = TypeError" by (rule get_prop_error)
      with Inl show ?thesis
        by (cases "get_prop k' t") (auto dest: get_prop_error)
    next
      case ca: (Inr ca)
      show ?thesis
      proof (cases "get_prop k' t")
        case (Inl e)
        with ca show ?thesis by simp
      next
        case cb: (Inr cb)
        show ?thesis
        proof (cases "assign ks v ca")
          case (Inl e)
          then have "e = TypeError" by (rule assign_error)
          with Inl ca cb show ?thesis
            by (cases "assign ks' w cb") (auto dest: assign_error)
        next
          case ca': (Inr ca')
          show ?thesis
          proof (cases "assign ks' w cb")
            case (Inl e)
            with ca cb ca' show ?thesis by simp
          next
            case cb': (Inr cb')
            show ?thesis using ca cb ca' cb' set_prop_commute [OF n, of ca' t cb'] by simp
          qed
        qed
      qed
    qed
    show ?thesis
      by (simp only: half [OF n, of ks v ks' w] half [OF n', of ks' w ks v] swap)
  qed
qed simp_all

lemma bindE_assoc: "bindE (bindE m f) g = bindE m (\<lambda>x. bindE (f x) g)"
  by (cases m) simp_all

lemma exec_Write_fun: "exec (Write p v) = assign p v"
  by (rule ext) simp

lemma exec_idem: "bindE (exec x t) (exec x) = exec x t"
proof (cases x)
  case (Write p v)
  show ?thesis
  proof (cases "assign p v t")
    case (Inl e)
    with Write show ?thesis by simp
  next
    case (Inr t1)
    then have "assign p v t1 = assign p v t" by (rule assign_overwrite)
    with Write Inr show ?thesis by simp
  qed
next
  case (Check r)
  then show ?thesis by (cases "get_path r t") simp_all
qed

lemma write_absorb: "bindE (assign p v t) (assign p w) = assign p w t"
proof (cases "assign p v t")
  case (Inl e)
  then have "assign p w t = Inl e" by (rule assign_fail_indep)
  with Inl show ?thesis by simp
next
  case (Inr t1)
  then have "assign p w t1 = assign p w t" by (rule assign_overwrite)
  with Inr show ?thesis by simp
qed

lemma write_check_commute:
  assumes "prefix r p \<or> diverge p r"
  shows "bindE (exec (Write p v) t) (exec (Check r)) = bindE (exec (Check r) t) (exec (Write p v))"
proof (cases "assign p v t")
  case (Inl e)
  then have "e = TypeError" by (rule assign_error)
  with Inl show ?thesis by (cases "get_path r t") (auto dest: get_path_error)
next
  case (Inr t1)
  have "readable r t1 = readable r t"
  proof (cases "prefix r p")
    case True
    then obtain s where "p = r @ s" by (auto simp: prefix_def)
    with Inr show ?thesis using assign_readable_prefix by blast
  next
    case False
    with assms have "diverge p r" by simp
    then have "get_path r t1 = get_path r t" using Inr by (rule assign_get_diverge)
    then show ?thesis by (simp add: readable_def)
  qed
  then show ?thesis using Inr
    by (cases "get_path r t"; cases "get_path r t1")
       (auto simp: readable_def dest!: get_path_error)
qed

lemma absorb_or_commute:
  assumes "compat x y"
  shows "bindE (exec x t) (exec y) = exec y t
       \<or> bindE (exec x t) (exec y) = bindE (exec y t) (exec x)"
proof (cases x)
  case wx: (Write p v)
  show ?thesis
  proof (cases y)
    case (Write q w)
    show ?thesis
    proof (cases "p = q")
      case True
      have "bindE (exec x t) (exec y) = exec y t"
        unfolding wx Write True exec_Write_fun by (rule write_absorb)
      then show ?thesis ..
    next
      case False
      with assms wx Write have "diverge p q" by simp
      then have "bindE (assign p v t) (assign q w) = bindE (assign q w t) (assign p v)"
        by (rule assign_commute)
      then have "bindE (exec x t) (exec y) = bindE (exec y t) (exec x)"
        unfolding wx Write exec_Write_fun .
      then show ?thesis ..
    qed
  next
    case (Check r)
    with assms wx have "prefix r p \<or> diverge p r" by simp
    then show ?thesis unfolding wx Check using write_check_commute by blast
  qed
next
  case cx: (Check r)
  show ?thesis
  proof (cases y)
    case (Write p v)
    with assms cx have "prefix r p \<or> diverge p r" by simp
    then show ?thesis unfolding cx Write using write_check_commute [of r p v t] by simp
  next
    case (Check r')
    have "bindE (exec x t) (exec y) = bindE (exec y t) (exec x)"
      unfolding cx Check
      by (cases "get_path r t"; cases "get_path r' t") (auto dest: get_path_error)
    then show ?thesis ..
  qed
qed

lemma execs_append: "execs (a @ b) t = bindE (execs a t) (execs b)"
  by (induction a arbitrary: t) (auto simp: bindE_def split: sum.splits)

lemma execs_band:
  "\<forall>y \<in> set w. compat x y \<Longrightarrow> execs (x # w @ [x]) t = execs (w @ [x]) t"
proof (induction w arbitrary: t)
  case Nil
  show ?case using exec_idem [of x t] by (cases "exec x t") simp_all
next
  case (Cons y w)
  then have c: "compat x y" and ih: "\<And>t. execs (x # w @ [x]) t = execs (w @ [x]) t"
    by simp_all
  have l: "execs (x # (y # w) @ [x]) t = bindE (bindE (exec x t) (exec y)) (execs (w @ [x]))"
    by (cases "exec x t") simp_all
  from absorb_or_commute [OF c, of t] show ?case
  proof
    assume "bindE (exec x t) (exec y) = exec y t"
    with l show ?thesis by simp
  next
    assume "bindE (exec x t) (exec y) = bindE (exec y t) (exec x)"
    with l have "execs (x # (y # w) @ [x]) t = bindE (exec y t) (\<lambda>s. execs (x # w @ [x]) s)"
      by (cases "exec y t") simp_all
    then show ?thesis using ih by (cases "exec y t") simp_all
  qed
qed

lemma execs_rotate:
  "\<forall>x \<in> set u. \<forall>y \<in> set (u @ w). compat x y \<Longrightarrow> execs (u @ w @ u) t = execs (w @ u) t"
proof (induction u arbitrary: w t)
  case Nil
  show ?case by simp
next
  case (Cons x u)
  have b: "\<forall>y \<in> set (u @ w). compat x y" using Cons.prems by simp
  have "execs ((x # u) @ w @ x # u) t = bindE (execs (x # (u @ w) @ [x]) t) (execs u)"
    using execs_append [of "x # (u @ w) @ [x]" u t] by simp
  also have "\<dots> = bindE (execs ((u @ w) @ [x]) t) (execs u)"
    by (simp only: execs_band [OF b])
  also have "\<dots> = execs (u @ (w @ [x]) @ u) t"
    using execs_append [of "(u @ w) @ [x]" u t] by simp
  also have "\<dots> = execs ((w @ [x]) @ u) t"
    by (rule Cons.IH) (use Cons.prems in auto)
  finally show ?case by simp
qed

lemma execs_idem:
  assumes "\<forall>x \<in> set u. \<forall>y \<in> set u. compat x y"
  shows "bindE (execs u t) (execs u) = execs u t"
  using execs_rotate [of u "[]" t] assms execs_append [of u u t] by simp

lemmas key_simps = array_index_def is_digit_def digit_val_def slot_neq_def container_path_def

lemma write_paths_compat:
  "\<forall>p \<in> set write_paths. \<forall>q \<in> set write_paths. p = q \<or> diverge p q"
  by (simp add: write_paths_def key_simps)

lemma check_paths_compat:
  "\<forall>p \<in> set write_paths. \<forall>r \<in> set check_paths. prefix r p \<or> diverge p r"
  by (simp add: write_paths_def check_paths_def key_simps)

lemma guard_paths_diverge:
  "\<forall>p \<in> set write_paths. diverge p [''kind''] \<and> diverge p [''metadata'', ''name'']"
  by (simp add: write_paths_def key_simps)

lemma allowed_compat: "allowed x \<Longrightarrow> allowed y \<Longrightarrow> compat x y"
  using write_paths_compat check_paths_compat
  by (cases x; cases y) auto

lemma compile_allowed: "x \<in> set (compile tr kv nv) \<Longrightarrow> allowed x"
  by (cases tr)
     (auto simp: target_ops_def write_if_def write_paths_def check_paths_def split: if_splits)

lemma get_path_kind: "get_path [''kind''] t = get_prop ''kind'' t"
  by (cases "get_prop ''kind'' t") simp_all

lemma exec_guards:
  assumes "allowed x" "exec x t = Inr t'"
  shows "get_prop ''kind'' t' = get_prop ''kind'' t
       \<and> get_path [''metadata'', ''name''] t' = get_path [''metadata'', ''name''] t"
proof (cases x)
  case (Write p v)
  with assms have p: "p \<in> set write_paths" and a: "assign p v t = Inr t'" by simp_all
  from p guard_paths_diverge have "diverge p [''kind'']" "diverge p [''metadata'', ''name'']"
    by blast+
  then have "get_path [''kind''] t' = get_path [''kind''] t"
    "get_path [''metadata'', ''name''] t' = get_path [''metadata'', ''name''] t"
    using a assign_get_diverge by blast+
  then show ?thesis by (simp only: get_path_kind)
next
  case (Check r)
  with assms show ?thesis by (auto split: sum.splits)
qed

lemma execs_guards:
  "\<forall>x \<in> set xs. allowed x \<Longrightarrow> execs xs t = Inr t' \<Longrightarrow>
   get_prop ''kind'' t' = get_prop ''kind'' t
     \<and> get_path [''metadata'', ''name''] t' = get_path [''metadata'', ''name''] t"
proof (induction xs arbitrary: t)
  case Nil
  then show ?case by simp
next
  case (Cons x xs)
  from Cons.prems(2) obtain t1 where t1: "exec x t = Inr t1" and r: "execs xs t1 = Inr t'"
    by (cases "exec x t") simp_all
  from Cons.prems(1) have "allowed x" by simp
  from exec_guards [OF this t1] Cons.IH [OF _ r] Cons.prems(1) show ?case by simp
qed

lemma execs_target_ops:
  "execs (target_ops kind name (get_prop ''kind'' t) (get_path [''metadata'', ''name''] t) body) t
   = bindE (is_target kind name t) (\<lambda>hit. if hit then execs body t else Inr t)"
  by (cases "get_prop ''kind'' t"; cases "get_path [''metadata'', ''name''] t")
     (auto simp: target_ops_def is_target_def split: sum.splits)

lemma execs_append_fun: "execs (a @ b) = (\<lambda>t. bindE (execs a t) (execs b))"
  by (rule ext) (rule execs_append)

lemma execs_write_if: "execs (write_if s p) = set_if s p"
proof
  fix t
  show "execs (write_if s p) t = set_if s p t"
    by (cases "assign p (JStr (the s)) t") (simp_all add: write_if_def set_if_def)
qed

lemma transform_compile:
  "transform tr t = execs (compile tr (get_prop ''kind'' t) (get_path [''metadata'', ''name''] t)) t"
proof (cases tr)
  case (Scale name replicas)
  have "execs [Write [''spec'', ''replicas''] (JNum replicas)] t
      = assign [''spec'', ''replicas''] (JNum replicas) t"
    by (cases "assign [''spec'', ''replicas''] (JNum replicas) t") simp_all
  then show ?thesis
    unfolding Scale transform.simps compile.simps execs_target_ops scaleDeployment_def
    by (simp only:)
next
  case (Limits name cpu memory)
  have "execs (Check container_path # ws) t
      = bindE (get_path container_path t) (\<lambda>container. execs ws t)" for ws
    by (cases "get_path container_path t") simp_all
  then show ?thesis
    unfolding Limits transform.simps compile.simps execs_target_ops setLimits_def
    by (simp only: execs_append_fun execs_append execs_write_if)
next
  case (Tolerate v)
  then show ?thesis
    by (cases "get_prop ''kind'' t";
        cases "assign [''spec'', ''template'', ''spec'', ''tolerations''] (toleration v) t")
       (auto simp: tolerateDedicated_def)
qed

lemma compile_all_allowed: "x \<in> set (compile_all trs kv nv) \<Longrightarrow> allowed x"
  by (auto simp: compile_all_def dest: compile_allowed)

lemma run_compile:
  "run (map transform trs) t
   = execs (compile_all trs (get_prop ''kind'' t) (get_path [''metadata'', ''name''] t)) t"
proof (induction trs arbitrary: t)
  case Nil
  show ?case by (simp add: compile_all_def)
next
  case (Cons tr trs)
  define kv where "kv = get_prop ''kind'' t"
  define nv where "nv = get_path [''metadata'', ''name''] t"
  have tc: "transform tr t = execs (compile tr kv nv) t"
    unfolding kv_def nv_def by (rule transform_compile)
  have split: "execs (compile_all (tr # trs) kv nv) t
      = bindE (execs (compile tr kv nv) t) (execs (compile_all trs kv nv))"
    by (simp add: compile_all_def execs_append)
  have "run (map transform (tr # trs)) t = execs (compile_all (tr # trs) kv nv) t"
  proof (cases "execs (compile tr kv nv) t")
    case (Inl e)
    then show ?thesis by (simp add: split tc)
  next
    case (Inr t1)
    have "\<forall>x \<in> set (compile tr kv nv). allowed x" by (auto dest: compile_allowed)
    from execs_guards [OF this Inr]
    have "get_prop ''kind'' t1 = kv" "get_path [''metadata'', ''name''] t1 = nv"
      unfolding kv_def nv_def by blast+
    then have "run (map transform trs) t1 = execs (compile_all trs kv nv) t1"
      by (simp only: Cons.IH [of t1])
    with Inr show ?thesis by (simp add: split tc)
  qed
  then show ?case unfolding kv_def nv_def .
qed

lemma run_idem:
  assumes "run (map transform trs) t = Inr t1"
  shows "run (map transform trs) t1 = Inr t1"
proof -
  define kv where "kv = get_prop ''kind'' t"
  define nv where "nv = get_path [''metadata'', ''name''] t"
  define ops where "ops = compile_all trs kv nv"
  have a: "\<forall>x \<in> set ops. allowed x"
    unfolding ops_def by (auto dest: compile_all_allowed)
  have e: "execs ops t = Inr t1"
    using assms unfolding ops_def kv_def nv_def by (simp only: run_compile)
  from execs_guards [OF a e]
  have "get_prop ''kind'' t1 = kv" "get_path [''metadata'', ''name''] t1 = nv"
    unfolding kv_def nv_def by blast+
  then have "run (map transform trs) t1 = execs ops t1"
    unfolding ops_def by (simp only: run_compile)
  moreover have "bindE (execs ops t) (execs ops) = execs ops t"
    by (rule execs_idem) (use a allowed_compat in blast)
  ultimately show ?thesis using e by simp
qed

lemma for_each_Inr_iff:
  "for_each f g = Inr g' \<longleftrightarrow> list_all2 (\<lambda>x y. f x = Inr y) g g'"
proof (induction g arbitrary: g')
  case Nil
  show ?case by (cases g') auto
next
  case (Cons x xs)
  show ?case
  proof (cases g')
    case Nil
    show ?thesis unfolding Nil
      by (cases "f x"; cases "for_each f xs") simp_all
  next
    case c: (Cons y ys)
    have "for_each f (x # xs) = Inr (y # ys) \<longleftrightarrow> f x = Inr y \<and> for_each f xs = Inr ys"
      by (cases "f x"; cases "for_each f xs") auto
    also have "\<dots> \<longleftrightarrow> f x = Inr y \<and> list_all2 (\<lambda>x y. f x = Inr y) xs ys"
      by (simp only: Cons.IH)
    finally show ?thesis unfolding c by simp
  qed
qed

lemma apply_transformations_Inr_iff:
  "apply_transformations fs g = Inr g' \<longleftrightarrow> list_all2 (\<lambda>x y. run fs x = Inr y) g g'"
proof (induction fs arbitrary: g)
  case Nil
  have "list_all2 (\<lambda>x y. run [] x = Inr y) g g' \<longleftrightarrow> list_all2 (=) g g'" by simp
  then show ?case by (auto simp: list.rel_eq)
next
  case (Cons f fs)
  have "apply_transformations (f # fs) g = Inr g'
      \<longleftrightarrow> (\<exists>g1. for_each f g = Inr g1 \<and> apply_transformations fs g1 = Inr g')"
    by (cases "for_each f g") simp_all
  also have "\<dots> \<longleftrightarrow> (\<exists>g1. list_all2 (\<lambda>x y. f x = Inr y) g g1
                         \<and> list_all2 (\<lambda>x y. run fs x = Inr y) g1 g')"
    by (simp only: for_each_Inr_iff Cons.IH)
  also have "\<dots> \<longleftrightarrow> list_all2 ((\<lambda>x y. f x = Inr y) OO (\<lambda>x y. run fs x = Inr y)) g g'"
    unfolding list.rel_compp by blast
  also have "(\<lambda>x y. f x = Inr y) OO (\<lambda>x y. run fs x = Inr y) = (\<lambda>x y. run (f # fs) x = Inr y)"
  proof (intro ext)
    fix x y
    show "((\<lambda>x y. f x = Inr y) OO (\<lambda>x y. run fs x = Inr y)) x y = (run (f # fs) x = Inr y)"
      by (cases "f x") auto
  qed
  finally show ?case .
qed

section \<open>When an assignment succeeds\<close>

lemma settable_set_prop: "settable t \<Longrightarrow> \<exists>t'. set_prop k v t = Inr t'"
  by (cases t) (auto simp: settable_def set_prop_def)

lemma set_prop_settable: "set_prop k v t = Inr t' \<Longrightarrow> settable t \<and> settable t'"
  by (cases t; cases "array_index k") (auto simp: settable_def set_prop_def)

lemma settable_get_prop: "settable t \<Longrightarrow> \<exists>c. get_prop k t = Inr c"
  by (cases t) (auto simp: settable_def get_prop_def)

lemma get_prop_primitive:
  "\<not> settable t \<Longrightarrow> get_prop k t = Inr c \<Longrightarrow> \<not> settable c"
  by (cases t; cases "array_index k") (auto simp: settable_def get_prop_def split: if_splits)

lemma get_path_primitive:
  "\<not> settable t \<Longrightarrow> get_path p t = Inr c \<Longrightarrow> \<not> settable c"
proof (induction p arbitrary: t)
  case Nil
  then show ?case by simp
next
  case (Cons k ks)
  from Cons.prems(2) obtain d where d: "get_prop k t = Inr d" and c: "get_path ks d = Inr c"
    by (auto split: sum.splits)
  from get_prop_primitive [OF Cons.prems(1) d] have "\<not> settable d" .
  from Cons.IH [OF this c] show ?case .
qed

lemma get_path_append:
  "get_path (p @ q) t = bindE (get_path p t) (get_path q)"
proof (induction p arbitrary: t)
  case Nil
  show ?case by simp
next
  case (Cons k ks)
  then show ?case by (cases "get_prop k t") simp_all
qed

lemma assign_total:
  "get_path p t = Inr c \<Longrightarrow> settable c \<Longrightarrow> \<exists>t'. assign (p @ [k]) v t = Inr t'"
proof (induction p arbitrary: t)
  case Nil
  then have "settable t" by simp
  from settable_get_prop [OF this, of k] obtain c0 where "get_prop k t = Inr c0" by blast
  moreover from settable_set_prop [OF \<open>settable t\<close>, of k v]
  obtain t' where "set_prop k v t = Inr t'" by blast
  ultimately show ?case by simp
next
  case (Cons a as)
  from Cons.prems(1) obtain d where d: "get_prop a t = Inr d" and c: "get_path as d = Inr c"
    by (auto split: sum.splits)
  from Cons.IH [OF c Cons.prems(2)] obtain d' where d': "assign (as @ [k]) v d = Inr d'" by blast
  have "settable t" using get_path_primitive [of t "a # as" c] Cons.prems by blast
  from settable_set_prop [OF this] obtain t' where "set_prop a d' t = Inr t'" by blast
  with d d' show ?case by simp
qed

lemma assign_parent_settable:
  "assign (p @ [k]) v t = Inr t' \<Longrightarrow> \<exists>c. get_path p t' = Inr c \<and> settable c"
proof (induction p arbitrary: t t')
  case Nil
  then show ?case by (auto split: sum.splits dest: set_prop_settable)
next
  case (Cons a as)
  from Cons.prems obtain d d' where d: "get_prop a t = Inr d"
    and d': "assign (as @ [k]) v d = Inr d'" and t': "set_prop a d' t = Inr t'"
    by (auto split: sum.splits)
  from Cons.IH [OF d'] obtain c where "get_path as d' = Inr c" "settable c" by blast
  moreover have "get_prop a t' = Inr d'" using t' by (rule set_prop_get_same)
  ultimately show ?case by simp
qed

lemma set_if_get:
  assumes "set_if s p t = Inr t'"
  shows "get_path p t' = (if truthy s then Inr (JStr (the s)) else get_path p t)"
    and "diverge p q \<Longrightarrow> get_path q t' = get_path q t"
  using assms by (auto simp: set_if_def split: if_splits dest: assign_get_same assign_get_diverge)

lemmas eval_simps = obj_lit_def arr_lit_def get_prop_def set_prop_def own_prop_def
  array_index_def is_digit_def digit_val_def container_path_def is_target_def
  array_put_def slot_neq_def get_path.simps assign.simps diverge.simps

declare get_path.simps [simp del] assign.simps [simp del] diverge.simps [simp del]

lemma tolerateDedicated_result:
  assumes "tolerateDedicated v t = Inr t'"
  shows "\<exists>k. get_prop ''kind'' t = Inr k
           \<and> (if k = JStr ''Deployment''
               then assign [''spec'', ''template'', ''spec'', ''tolerations''] (toleration v) t = Inr t'
               else t' = t)"
  using assms by (cases "get_prop ''kind'' t") (auto simp: tolerateDedicated_def split: if_splits)

lemma toleration_reads:
  "toleration v
     = JArr [JObj (fmap_of_list [(''key'', JStr ''dedicated''), (''operator'', JStr ''Equal''),
                                 (''value'', JStr v), (''effect'', JStr ''NoSchedule'')])] fmempty"
  "get_path [''0'', ''key''] (toleration v) = Inr (JStr ''dedicated'')"
  "get_path [''0'', ''operator''] (toleration v) = Inr (JStr ''Equal'')"
  "get_path [''0'', ''value''] (toleration v) = Inr (JStr v)"
  "get_path [''0'', ''effect''] (toleration v) = Inr (JStr ''NoSchedule'')"
  "get_path [''1''] (toleration v) = Inr JUndefined"
  by (simp_all add: toleration_def eval_simps)

lemma get_path_below:
  assumes "get_path p t = Inr u"
  shows "get_path (p @ q) t = get_path q u"
  using assms by (simp add: get_path_append)

lemma for_each_single: "apply_transformations [f] g = for_each f g"
  by (cases "for_each f g") simp_all

lemma sample_group_nth:
  "sample_group ! 0 = sample_deployment ''temporal-frontend''"
  "sample_group ! 1 = sample_deployment ''temporal-history''"
  "sample_group ! 2 = sample_deployment ''temporal-matching''"
  "sample_group ! 3 = sample_service"
  "length sample_group = 4"
  by (simp_all add: sample_group_def)

lemma sample_deployment_reads:
  "get_prop ''kind'' (sample_deployment n) = Inr (JStr ''Deployment'')"
  "get_path [''metadata'', ''name''] (sample_deployment n) = Inr (JStr n)"
  "get_path [''spec'', ''replicas''] (sample_deployment n) = Inr (JNum 1)"
  "\<exists>m. get_path [''spec'', ''template'', ''spec''] (sample_deployment n) = Inr (JObj m)"
  by (simp_all add: sample_deployment_def eval_simps)

lemma sample_service_reads:
  "get_prop ''kind'' sample_service = Inr (JStr ''Service'')"
  "get_path [''spec'', ''template''] sample_service = Inr JUndefined"
  by (simp_all add: sample_service_def eval_simps)

lemma set_if_total:
  "get_path p t = Inr c \<Longrightarrow> settable c \<Longrightarrow> \<exists>t'. set_if s (p @ [k]) t = Inr t'"
  using assign_total [of p t c k] by (auto simp: set_if_def)

lemma set_if_parent:
  assumes "set_if s (p @ [k]) t = Inr t'" "get_path p t = Inr c" "settable c"
  shows "\<exists>c'. get_path p t' = Inr c' \<and> settable c'"
proof (cases "truthy s")
  case True
  with assms(1) have "assign (p @ [k]) (JStr (the s)) t = Inr t'" by (simp add: set_if_def)
  then show ?thesis by (rule assign_parent_settable)
next
  case False
  with assms show ?thesis by (auto simp: set_if_def)
qed

lemma limit_paths_diverge:
  "diverge (container_path @ [''resources'', ''requests'', ''cpu''])
           (container_path @ [''resources'', ''limits'', ''cpu''])"
  "diverge (container_path @ [''resources'', ''requests'', ''cpu''])
           (container_path @ [''resources'', ''requests'', ''memory''])"
  "diverge (container_path @ [''resources'', ''requests'', ''cpu''])
           (container_path @ [''resources'', ''limits'', ''memory''])"
  "diverge (container_path @ [''resources'', ''limits'', ''cpu''])
           (container_path @ [''resources'', ''requests'', ''memory''])"
  "diverge (container_path @ [''resources'', ''limits'', ''cpu''])
           (container_path @ [''resources'', ''limits'', ''memory''])"
  "diverge (container_path @ [''resources'', ''requests'', ''memory''])
           (container_path @ [''resources'', ''limits'', ''memory''])"
  "diverge (container_path @ [''resources'', ''requests'', ''cpu''])
           (container_path @ [''resources'', ''limits''])"
  "diverge (container_path @ [''resources'', ''limits'', ''cpu''])
           (container_path @ [''resources'', ''requests''])"
  "diverge (container_path @ [''resources'', ''requests'', ''memory''])
           (container_path @ [''resources'', ''limits''])"
  by (simp_all add: eval_simps)

lemma setLimits_steps:
  assumes "is_target ''Deployment'' name obj = Inr True"
    and "setLimits name cpu memory obj = Inr obj'"
  obtains o1 o2 o3 where
    "set_if (cpu_request cpu) (container_path @ [''resources'', ''requests'', ''cpu'']) obj = Inr o1"
    "set_if (cpu_limit cpu) (container_path @ [''resources'', ''limits'', ''cpu'']) o1 = Inr o2"
    "set_if (memory_request memory) (container_path @ [''resources'', ''requests'', ''memory'']) o2
       = Inr o3"
    "set_if (memory_limit memory) (container_path @ [''resources'', ''limits'', ''memory'']) o3
       = Inr obj'"
  using assms
  by (auto simp: setLimits_def bindE_def split: sum.splits)


lemma datasource_paths_diverge:
  "diverge [''spec'', ''datasource'', ''url''] [''spec'', ''datasource'', ''jsonData'']"
  "diverge [''spec'', ''datasource'', ''jsonData''] [''spec'', ''datasource'', ''url'']"
  by (simp_all add: eval_simps)

section \<open>Laws of the configuration resolver\<close>

subsection \<open>Laws of numbers\<close>

lemma digit_val_digit:
  assumes "d < 10"
  shows "digit_val (''0123456789'' ! d) = d"
proof -
  from assms have "d = 0 \<or> d = 1 \<or> d = 2 \<or> d = 3 \<or> d = 4 \<or> d = 5 \<or> d = 6
      \<or> d = 7 \<or> d = 8 \<or> d = 9"
    by arith
  then show ?thesis by (elim disjE) (simp_all add: digit_val_def)
qed

lemma decimal_value_string_of_nat: "decimal_value (string_of_nat n) = n"
proof (induction n rule: string_of_nat.induct)
  case (1 n)
  show ?case
  proof (cases "n < 10")
    case True
    then show ?thesis
      by (subst string_of_nat.simps) (simp add: decimal_value_def digit_val_digit)
  next
    case False
    with 1 have ih: "decimal_value (string_of_nat (n div 10)) = n div 10" by simp
    have "decimal_value (string_of_nat n)
        = 10 * decimal_value (string_of_nat (n div 10)) + digit_val (''0123456789'' ! (n mod 10))"
      using False by (subst string_of_nat.simps) (simp add: decimal_value_def)
    also have "\<dots> = 10 * (n div 10) + n mod 10"
      by (simp add: ih digit_val_digit)
    finally show ?thesis by simp
  qed
qed

lemma ceiling_quotient_iff:
  assumes "(0::int) < b"
  shows "k = \<lceil>real_of_int a / real_of_int b\<rceil> \<longleftrightarrow> (k - 1) * b < a \<and> a \<le> k * b"
proof -
  have b: "0 < real_of_int b" using assms by simp
  have "k = \<lceil>real_of_int a / real_of_int b\<rceil>
      \<longleftrightarrow> real_of_int k - 1 < real_of_int a / real_of_int b
          \<and> real_of_int a / real_of_int b \<le> real_of_int k"
    using ceiling_eq_iff [of "real_of_int a / real_of_int b" k] by auto
  also have "\<dots> \<longleftrightarrow> (real_of_int k - 1) * real_of_int b < real_of_int a
                    \<and> real_of_int a \<le> real_of_int k * real_of_int b"
    using b by (simp add: pos_less_divide_eq pos_divide_le_eq)
  also have "\<dots> \<longleftrightarrow> real_of_int ((k - 1) * b) < real_of_int a
                    \<and> real_of_int a \<le> real_of_int (k * b)"
    by simp
  also have "\<dots> \<longleftrightarrow> (k - 1) * b < a \<and> a \<le> k * b"
    by (simp only: of_int_less_iff of_int_le_iff)
  finally show ?thesis .
qed

lemmas num_eval = number_toString_def whole_toString_def number_of_int_def round_nat_def
  nat_toString_def string_of_nat.simps bit_length.simps round_half_even_def
  shortest_decimal_def shortest_from.simps pick_def exponent_form_def significand_def
  js_div_def Math_ceil_def round_ratio_def scaled_round_def scaled_le_def
  binade_def pow2_def w_negative_def w_zero_def w_infinite_def magnitude_def

lemma bit_length_bounds:
  "0 < n \<Longrightarrow> 2 ^ (bit_length n - 1) \<le> n \<and> n < 2 ^ bit_length n"
proof (induction n rule: bit_length.induct)
  case (1 n)
  show ?case
  proof (cases "n div 2 = 0")
    case True
    with 1(2) have n: "n = 1" by arith
    have "bit_length 1 = 1" by (simp add: bit_length.simps)
    with n show ?thesis by simp
  next
    case False
    then have pos: "0 < n div 2" by simp
    from 1(2) have n0: "n \<noteq> 0" by simp
    from 1(1) [OF n0 pos]
    have ih: "2 ^ (bit_length (n div 2) - 1) \<le> n div 2" "n div 2 < 2 ^ bit_length (n div 2)"
      by simp_all
    have bl: "bit_length n = Suc (bit_length (n div 2))"
      using n0 by (subst bit_length.simps) simp
    have "bit_length (n div 2) \<noteq> 0"
      using pos by (subst bit_length.simps) simp
    then obtain m where m: "bit_length (n div 2) = Suc m" by (cases "bit_length (n div 2)") auto
    from ih m have "2 * 2 ^ m \<le> 2 * (n div 2)" by simp
    then have lo: "2 ^ (bit_length n - 1) \<le> n" unfolding bl m by simp
    from ih(2) have "n div 2 + 1 \<le> 2 ^ bit_length (n div 2)" by simp
    then have "2 * (n div 2) + 2 \<le> 2 * 2 ^ bit_length (n div 2)" by simp
    then have hi: "n < 2 ^ bit_length n" unfolding bl by simp
    from lo hi show ?thesis ..
  qed
qed

lemma round_half_even_cases:
  "round_half_even n d = n div d \<and> 2 * (n mod d) \<le> d
   \<or> round_half_even n d = n div d + 1 \<and> d \<le> 2 * (n mod d)"
  by (simp add: round_half_even_def)

lemma round_half_even_le:
  assumes "0 < d" "n \<le> z * d"
  shows "round_half_even n d \<le> z"
proof (rule ccontr)
  assume "\<not> round_half_even n d \<le> z"
  then have gt: "z < round_half_even n d" by simp
  have n: "n = n div d * d + n mod d" by simp
  have m: "n mod d < d" using assms(1) by simp
  from round_half_even_cases [of n d] show False
  proof
    assume a: "round_half_even n d = n div d \<and> 2 * (n mod d) \<le> d"
    with gt have "z + 1 \<le> n div d" by simp
    then have "(z + 1) * d \<le> n div d * d" by (rule mult_le_mono1)
    then have "z * d + d \<le> n div d * d" by (simp add: algebra_simps)
    moreover have "n div d * d \<le> n" by simp
    ultimately show False using assms by arith
  next
    assume a: "round_half_even n d = n div d + 1 \<and> d \<le> 2 * (n mod d)"
    with gt have "z \<le> n div d" by simp
    then have "z * d \<le> n div d * d" by (rule mult_le_mono1)
    moreover from a assms(1) have "0 < n mod d" by arith
    ultimately show False using n assms(2) by arith
  qed
qed

lemma round_half_even_ge:
  assumes "0 < d" "z * d \<le> n"
  shows "z \<le> round_half_even n d"
proof -
  from assms have "z \<le> n div d" by (simp add: less_eq_div_iff_mult_less_eq)
  with round_half_even_cases [of n d] show ?thesis by arith
qed

lemma round_half_even_above:
  assumes "0 < d" "2 * (z * d) + d < 2 * n"
  shows "z < round_half_even n d"
proof (rule ccontr)
  assume "\<not> z < round_half_even n d"
  then have le: "round_half_even n d \<le> z" by simp
  have n: "n = n div d * d + n mod d" by simp
  have m: "n mod d < d" using assms(1) by simp
  from round_half_even_cases [of n d] show False
  proof
    assume a: "round_half_even n d = n div d \<and> 2 * (n mod d) \<le> d"
    with le have "n div d \<le> z" by simp
    then have "n div d * d \<le> z * d" by (rule mult_le_mono1)
    with a n assms(2) show False by arith
  next
    assume a: "round_half_even n d = n div d + 1 \<and> d \<le> 2 * (n mod d)"
    with le have "n div d + 1 \<le> z" by simp
    then have "(n div d + 1) * d \<le> z * d" by (rule mult_le_mono1)
    then have "n div d * d + d \<le> z * d" by (simp add: algebra_simps)
    with m n assms(2) show False by arith
  qed
qed

lemma round_half_even_below:
  assumes "0 < d" "2 * n + d < 2 * (z * d)"
  shows "round_half_even n d < z"
proof (rule ccontr)
  assume "\<not> round_half_even n d < z"
  then have le: "z \<le> round_half_even n d" by simp
  have n: "n = n div d * d + n mod d" by simp
  have m: "n mod d < d" using assms(1) by simp
  from round_half_even_cases [of n d] show False
  proof
    assume a: "round_half_even n d = n div d \<and> 2 * (n mod d) \<le> d"
    with le have "z \<le> n div d" by simp
    then have "z * d \<le> n div d * d" by (rule mult_le_mono1)
    with n assms(2) show False by arith
  next
    assume a: "round_half_even n d = n div d + 1 \<and> d \<le> 2 * (n mod d)"
    with le have "z \<le> n div d + 1" by simp
    then have "z * d \<le> (n div d + 1) * d" by (rule mult_le_mono1)
    then have "z * d \<le> n div d * d + d" by (simp add: algebra_simps)
    with a n assms(2) show False by arith
  qed
qed

text \<open>Rounding a quotient to a grid finer than \<open>1 / b\<close> never crosses a whole number.\<close>

lemma round_half_even_whole_le:
  assumes "0 < b" "b < 2 * 2 ^ k"
  shows "(round_half_even (a * 2 ^ k) b \<le> z * 2 ^ k) = (a \<le> z * b)"
proof
  assume "a \<le> z * b"
  then have "a * 2 ^ k \<le> z * b * 2 ^ k" by (rule mult_le_mono1)
  then have "a * 2 ^ k \<le> z * 2 ^ k * b" by (simp add: mult_ac)
  with assms(1) show "round_half_even (a * 2 ^ k) b \<le> z * 2 ^ k"
    by (rule round_half_even_le)
next
  assume r: "round_half_even (a * 2 ^ k) b \<le> z * 2 ^ k"
  show "a \<le> z * b"
  proof (rule ccontr)
    assume "\<not> a \<le> z * b"
    then have "z * b + 1 \<le> a" by simp
    then have "(z * b + 1) * 2 ^ k \<le> a * 2 ^ k" by (rule mult_le_mono1)
    then have "z * 2 ^ k * b + 2 ^ k \<le> a * 2 ^ k" by (simp add: algebra_simps)
    with assms(2) have "2 * (z * 2 ^ k * b) + b < 2 * (a * 2 ^ k)" by arith
    with assms(1) have "z * 2 ^ k < round_half_even (a * 2 ^ k) b"
      by (rule round_half_even_above)
    with r show False by simp
  qed
qed

lemma round_half_even_whole_ge:
  assumes "0 < b" "b < 2 * 2 ^ k"
  shows "(z * 2 ^ k \<le> round_half_even (a * 2 ^ k) b) = (z * b \<le> a)"
proof
  assume "z * b \<le> a"
  then have "z * b * 2 ^ k \<le> a * 2 ^ k" by (rule mult_le_mono1)
  then have "z * 2 ^ k * b \<le> a * 2 ^ k" by (simp add: mult_ac)
  with assms(1) show "z * 2 ^ k \<le> round_half_even (a * 2 ^ k) b"
    by (rule round_half_even_ge)
next
  assume r: "z * 2 ^ k \<le> round_half_even (a * 2 ^ k) b"
  show "z * b \<le> a"
  proof (rule ccontr)
    assume "\<not> z * b \<le> a"
    then have "a + 1 \<le> z * b" by simp
    then have "(a + 1) * 2 ^ k \<le> z * b * 2 ^ k" by (rule mult_le_mono1)
    then have "a * 2 ^ k + 2 ^ k \<le> z * 2 ^ k * b" by (simp add: algebra_simps)
    with assms(2) have "2 * (a * 2 ^ k) + b < 2 * (z * 2 ^ k * b)" by arith
    with assms(1) have "round_half_even (a * 2 ^ k) b < z * 2 ^ k"
      by (rule round_half_even_below)
    with r show False by simp
  qed
qed


lemma bit_length_le:
  assumes "n < 2 ^ k"
  shows "bit_length n \<le> k"
proof (cases "n = 0")
  case True
  then show ?thesis by (simp add: bit_length.simps)
next
  case False
  then have "2 ^ (bit_length n - 1) \<le> n" using bit_length_bounds [of n] by simp
  from this assms have "(2::nat) ^ (bit_length n - 1) < 2 ^ k" by (rule le_less_trans)
  then have "bit_length n - 1 < k" by (rule power_less_imp_less_exp [rotated]) simp
  then show ?thesis by simp
qed

lemma bit_length_pos: "0 < n \<Longrightarrow> 0 < bit_length n"
  by (subst bit_length.simps) simp

lemma bit_length_gt:
  assumes "2 ^ k \<le> n"
  shows "k < bit_length n"
proof -
  from assms have "0 < n" by (cases "n = 0") auto
  then have "n < 2 ^ bit_length n" using bit_length_bounds [of n] by simp
  with assms have "(2::nat) ^ k < 2 ^ bit_length n" by (rule le_less_trans)
  then show ?thesis by (rule power_less_imp_less_exp [rotated]) simp
qed

text \<open>Whole numbers up to \<open>2^53\<close> are machine numbers; above, rounding stays above.\<close>

lemma round_nat_exact: "n \<le> 2 ^ 53 \<Longrightarrow> round_nat n = Some n"
  by (simp add: round_nat_def)

lemma round_nat_large:
  assumes "2 ^ 53 < n" "round_nat n = Some v"
  shows "2 ^ 53 \<le> v"
proof -
  define p where "p = bit_length n - 53"
  from assms(1) have "53 < bit_length n" by (intro bit_length_gt) simp
  then have bl: "bit_length n - 1 = 52 + p" "0 < p" by (simp_all add: p_def)
  from assms have v: "v = round_half_even n (2 ^ p) * 2 ^ p"
    by (simp add: round_nat_def p_def split: if_splits)
  from assms(1) have "0 < n" by (cases "n = 0") auto
  then have "2 ^ (52 + p) \<le> n" using bit_length_bounds [of n] bl by simp
  then have "2 ^ 52 * 2 ^ p \<le> n" by (simp add: power_add)
  then have "2 ^ 52 \<le> round_half_even n (2 ^ p)"
    by (intro round_half_even_ge) simp_all
  moreover have "(2::nat) ^ 1 \<le> 2 ^ p"
    using bl(2) by (intro power_increasing) simp_all
  ultimately have "2 ^ 52 * 2 ^ 1 \<le> round_half_even n (2 ^ p) * 2 ^ p" by (rule mult_le_mono)
  then show ?thesis unfolding v by simp
qed

lemma round_nat_fixed:
  assumes "x < 2 ^ 53" "round_nat c = Some x"
  shows "c = x"
proof (cases "c \<le> 2 ^ 53")
  case True
  with assms(2) show ?thesis by (simp add: round_nat_exact)
next
  case False
  then have "2 ^ 53 < c" by simp
  from round_nat_large [OF this assms(2)] assms(1) show ?thesis by simp
qed

lemma pick_fixed:
  assumes "x < 2 ^ 53" "pick x m s = Some c"
  shows "c = x"
proof -
  from assms(2) have "round_nat (m * s) = Some x \<and> (c = m * s \<or> round_nat (m * s + s) = Some x \<and> c = m * s + s)
      \<or> round_nat (m * s + s) = Some x \<and> c = m * s + s"
    by (auto simp: pick_def split: if_splits)
  then show ?thesis using round_nat_fixed [OF assms(1)] by auto
qed

lemma shortest_from_fixed: "x < 2 ^ 53 \<Longrightarrow> shortest_from x j = x"
proof (induction x j rule: shortest_from.induct)
  case (1 x j)
  show ?case
  proof (cases "j = 0")
    case True
    then show ?thesis by (subst shortest_from.simps) simp
  next
    case False
    show ?thesis
    proof (cases "pick x (x div 10 ^ j) (10 ^ j)")
      case None
      with False 1 show ?thesis by (subst shortest_from.simps) simp
    next
      case (Some c)
      with pick_fixed [OF 1(2) Some] False show ?thesis
        by (subst shortest_from.simps) simp
    qed
  qed
qed

lemma nat_toString_safe: "n < 2 ^ 53 \<Longrightarrow> nat_toString n = string_of_nat n"
  by (simp add: nat_toString_def shortest_decimal_def shortest_from_fixed)

lemma number_of_int_safe: "\<bar>i\<bar> < 2 ^ 53 \<Longrightarrow> number_of_int i = Whole i"
  by (simp add: number_of_int_def round_nat_exact)

lemma number_toString_safe:
  "\<bar>i\<bar> < 2 ^ 53 \<Longrightarrow>
   number_toString i = (if i < 0 then CHR ''-'' # string_of_nat (nat (- i)) else string_of_nat (nat i))"
  by (simp add: number_toString_def number_of_int_safe whole_toString_def nat_toString_safe)

lemma digit_is_digit:
  assumes "d < 10"
  shows "is_digit (''0123456789'' ! d) \<and> ((''0123456789'' ! d = CHR ''0'') = (d = 0))"
proof -
  from assms have "d = 0 \<or> d = 1 \<or> d = 2 \<or> d = 3 \<or> d = 4 \<or> d = 5 \<or> d = 6
      \<or> d = 7 \<or> d = 8 \<or> d = 9"
    by arith
  then show ?thesis by (elim disjE) (simp_all add: is_digit_def)
qed

lemma string_of_nat_digits:
  "string_of_nat n \<noteq> [] \<and> list_all is_digit (string_of_nat n)
   \<and> ((hd (string_of_nat n) = CHR ''0'') = (n = 0))"
proof (induction n rule: string_of_nat.induct)
  case (1 n)
  show ?case
  proof (cases "n < 10")
    case True
    then show ?thesis
      by (subst (1 2 3) string_of_nat.simps) (simp add: digit_is_digit)
  next
    case False
    with 1 have ih: "string_of_nat (n div 10) \<noteq> []" "list_all is_digit (string_of_nat (n div 10))"
      "(hd (string_of_nat (n div 10)) = CHR ''0'') = (n div 10 = 0)"
      by simp_all
    have s: "string_of_nat n = string_of_nat (n div 10) @ [''0123456789'' ! (n mod 10)]"
      using False by (subst string_of_nat.simps) simp
    from False have "n div 10 \<noteq> 0" "n \<noteq> 0" by simp_all
    with ih show ?thesis unfolding s by (simp add: digit_is_digit)
  qed
qed

lemma binade_lower:
  assumes "0 < a" "0 < b"
  shows "scaled_le b (binade a b) a"
proof (cases "scaled_le b (int (bit_length a) - int (bit_length b)) a")
  case True
  then show ?thesis by (simp add: binade_def)
next
  case False
  then have e: "binade a b = int (bit_length a) - int (bit_length b) - 1"
    by (simp add: binade_def)
  from assms have A: "2 ^ (bit_length a - 1) \<le> a" and B: "b < 2 ^ bit_length b"
    using bit_length_bounds [of a] bit_length_bounds [of b] by simp_all
  from assms have pa: "0 < bit_length a" and pb: "0 < bit_length b"
    by (simp_all add: bit_length_pos)
  show ?thesis
  proof (cases "bit_length b < bit_length a")
    case True
    define j where "j = bit_length a - bit_length b - 1"
    from True have n: "nat (int (bit_length a) - int (bit_length b) - 1) = j"
      and s: "bit_length a - 1 = bit_length b + j"
      by (simp_all add: j_def)
    from B have "b * 2 ^ j \<le> 2 ^ bit_length b * 2 ^ j" by (intro mult_le_mono1) simp
    also have "\<dots> = 2 ^ (bit_length a - 1)" by (simp only: s power_add)
    also note A
    finally have "b * 2 ^ j \<le> a" .
    moreover from True have "0 \<le> int (bit_length a) - int (bit_length b) - 1" by simp
    ultimately show ?thesis unfolding e scaled_le_def by (simp only: n if_True)
  next
    case False
    define j where "j = bit_length b + 1 - bit_length a"
    from False pa have n: "nat (- (int (bit_length a) - int (bit_length b) - 1)) = j"
      and s: "bit_length b = bit_length a - 1 + j"
      by (simp_all add: j_def)
    from B have "b < 2 ^ (bit_length a - 1 + j)" by (simp only: s [symmetric])
    then have "b \<le> 2 ^ (bit_length a - 1) * 2 ^ j" by (simp only: power_add less_imp_le)
    also from A have "\<dots> \<le> a * 2 ^ j" by (rule mult_le_mono1)
    finally have "b \<le> a * 2 ^ j" .
    moreover from False have "\<not> 0 \<le> int (bit_length a) - int (bit_length b) - 1" by simp
    ultimately show ?thesis unfolding e scaled_le_def by (simp only: n if_False)
  qed
qed

lemma binade_range:
  "binade a b \<le> int (bit_length a) - int (bit_length b)"
  "int (bit_length a) - int (bit_length b) - 1 \<le> binade a b"
  by (simp_all add: binade_def)

text \<open>
  The quotient of two whole numbers below \<open>2^53\<close>: it is \<open>r / 2^k\<close>, positive, and compares
  with every whole number as the exact quotient does.
\<close>

lemma safe_ratio:
  assumes "0 < a" "a < 2 ^ 53" "0 < b" "b < 2 ^ 53"
  shows "\<exists>r k. round_ratio neg a b (max (binade a b - 52) (- 1074))
             = Finite (if neg then - (real r / 2 ^ k) else real r / 2 ^ k)
           \<and> 0 < r
           \<and> (\<forall>z. (r \<le> z * 2 ^ k) = (a \<le> z * b))
           \<and> (\<forall>z. (z * 2 ^ k \<le> r) = (z * b \<le> a))"
proof -
  define e where "e = binade a b"
  define k where "k = nat (52 - e)"
  define r where "r = round_half_even (a * 2 ^ k) b"
  from assms have la: "bit_length a \<le> 53" and lb: "bit_length b \<le> 53"
    by (simp_all add: bit_length_le)
  from assms have pa: "0 < bit_length a" and pb: "0 < bit_length b"
    by (simp_all add: bit_length_pos)
  from binade_range [of a b] la lb pa pb have e: "e \<le> 52" "- 53 \<le> e"
    unfolding e_def by simp_all
  then have p: "max (e - 52) (- 1074) = e - 52" and k: "int k = 52 - e" "- (e - 52) = int k"
    by (simp_all add: k_def)
  have sr: "scaled_round a b (e - 52) = r"
  proof (cases "e = 52")
    case True
    then show ?thesis by (simp add: scaled_round_def r_def k_def)
  next
    case False
    with e have "e - 52 < 0" by simp
    then show ?thesis by (simp add: scaled_round_def r_def k_def)
  qed
  have pw: "pow2 (e - 52) = 1 / 2 ^ k"
  proof (cases "e = 52")
    case True
    then show ?thesis by (simp add: pow2_def k_def)
  next
    case False
    with e have "e - 52 < 0" by simp
    then show ?thesis by (simp add: pow2_def k_def)
  qed
  from binade_lower [OF assms(1,3)] have low: "scaled_le b e a" by (simp add: e_def)
  have bk: "b < 2 * 2 ^ k"
  proof (cases "0 \<le> e")
    case True
    define j where "j = nat e"
    from True e have kj: "53 = j + (k + 1)" by (simp add: j_def k_def)
    from low True have "b * 2 ^ j \<le> a" by (simp add: scaled_le_def j_def)
    with assms(2) have "b * 2 ^ j < 2 ^ 53" by simp
    also have "(2::nat) ^ 53 = 2 ^ (k + 1) * 2 ^ j" by (simp only: kj power_add mult.commute)
    finally have "b < 2 ^ (k + 1)" by simp
    then show ?thesis by simp
  next
    case False
    then have "53 \<le> k" by (simp add: k_def)
    then have "(2::nat) ^ 53 \<le> 2 ^ k" by (intro power_increasing) simp_all
    with assms(4) show ?thesis by simp
  qed
  have le: "(r \<le> z * 2 ^ k) = (a \<le> z * b)" for z
    unfolding r_def using assms(3) bk by (rule round_half_even_whole_le)
  have ge: "(z * 2 ^ k \<le> r) = (z * b \<le> a)" for z
    unfolding r_def using assms(3) bk by (rule round_half_even_whole_ge)
  have "b \<le> a * 2 ^ k"
  proof (cases "0 \<le> e")
    case True
    have "b \<le> b * 2 ^ nat e" by simp
    also from True low have "\<dots> \<le> a" by (simp add: scaled_le_def)
    also have "a \<le> a * 2 ^ k" by simp
    finally show ?thesis .
  next
    case False
    then have "nat (- e) \<le> k" by (simp add: k_def)
    then have "(2::nat) ^ nat (- e) \<le> 2 ^ k" by (intro power_increasing) simp_all
    then have m: "a * 2 ^ nat (- e) \<le> a * 2 ^ k" by (rule mult_le_mono2)
    from low False have "b \<le> a * 2 ^ nat (- e)" by (simp add: scaled_le_def)
    also note m
    finally show ?thesis .
  qed
  then have "1 * b \<le> a * 2 ^ k" by simp
  with assms(3) have "1 \<le> r" unfolding r_def by (rule round_half_even_ge)
  then have r0: "0 < r" by simp
  from assms(3) have "a \<le> a * b" by simp
  with le [of a] have "r \<le> a * 2 ^ k" by simp
  then have "real r \<le> real (a * 2 ^ k)" by (simp only: of_nat_le_iff)
  then have "real r / 2 ^ k \<le> real a" by (simp add: divide_le_eq)
  also from assms(2) have "real a < real ((2::nat) ^ 53)" by (simp only: of_nat_less_iff)
  also have "real ((2::nat) ^ 53) \<le> 2 ^ 1024" by simp
  finally have small: "\<not> 2 ^ 1024 \<le> real r * (1 / 2 ^ k)" by simp
  have "round_ratio neg a b (max (binade a b - 52) (- 1074))
      = Finite (if neg then - (real r / 2 ^ k) else real r / 2 ^ k)"
    unfolding e_def [symmetric] p round_ratio_def sr pw using small r0 by simp
  with r0 le ge show ?thesis by blast
qed

lemma ceiling_eq_by_bounds:
  fixes x y :: real
  assumes "0 \<le> x" "0 \<le> y" "\<And>z::nat. (x \<le> real z) = (y \<le> real z)"
  shows "\<lceil>x\<rceil> = \<lceil>y\<rceil>"
proof (rule antisym)
  from assms(2) have "0 \<le> \<lceil>y\<rceil>" by simp
  then have "real (nat \<lceil>y\<rceil>) = of_int \<lceil>y\<rceil>" by simp
  moreover have "y \<le> of_int \<lceil>y\<rceil>" by simp
  ultimately have "x \<le> of_int \<lceil>y\<rceil>" using assms(3) [of "nat \<lceil>y\<rceil>"] by simp
  then show "\<lceil>x\<rceil> \<le> \<lceil>y\<rceil>" by (simp add: ceiling_le_iff)
next
  from assms(1) have "0 \<le> \<lceil>x\<rceil>" by simp
  then have "real (nat \<lceil>x\<rceil>) = of_int \<lceil>x\<rceil>" by simp
  moreover have "x \<le> of_int \<lceil>x\<rceil>" by simp
  ultimately have "y \<le> of_int \<lceil>x\<rceil>" using assms(3) [of "nat \<lceil>x\<rceil>"] by simp
  then show "\<lceil>y\<rceil> \<le> \<lceil>x\<rceil>" by (simp add: ceiling_le_iff)
qed

lemma floor_eq_by_bounds:
  fixes x y :: real
  assumes "0 \<le> x" "0 \<le> y" "\<And>z::nat. (real z \<le> x) = (real z \<le> y)"
  shows "\<lfloor>x\<rfloor> = \<lfloor>y\<rfloor>"
proof (rule antisym)
  from assms(1) have "0 \<le> \<lfloor>x\<rfloor>" by simp
  then have "real (nat \<lfloor>x\<rfloor>) = of_int \<lfloor>x\<rfloor>" by simp
  moreover have "of_int \<lfloor>x\<rfloor> \<le> x" by simp
  ultimately have "of_int \<lfloor>x\<rfloor> \<le> y" using assms(3) [of "nat \<lfloor>x\<rfloor>"] by simp
  then show "\<lfloor>x\<rfloor> \<le> \<lfloor>y\<rfloor>" by (simp add: le_floor_iff)
next
  from assms(2) have "0 \<le> \<lfloor>y\<rfloor>" by simp
  then have "real (nat \<lfloor>y\<rfloor>) = of_int \<lfloor>y\<rfloor>" by simp
  moreover have "of_int \<lfloor>y\<rfloor> \<le> y" by simp
  ultimately have "of_int \<lfloor>y\<rfloor> \<le> x" using assms(3) [of "nat \<lfloor>y\<rfloor>"] by simp
  then show "\<lfloor>y\<rfloor> \<le> \<lfloor>x\<rfloor>" by (simp add: le_floor_iff)
qed

lemma scaled_le_real:
  "0 < b \<Longrightarrow> (real r / 2 ^ k \<le> real z) = (r \<le> z * 2 ^ k)"
  "0 < b \<Longrightarrow> (real a / real b \<le> real z) = (a \<le> z * b)"
  "0 < b \<Longrightarrow> (real z \<le> real r / 2 ^ k) = (z * 2 ^ k \<le> r)"
  "0 < b \<Longrightarrow> (real z \<le> real a / real b) = (z * b \<le> a)"
proof -
  have "(real r / 2 ^ k \<le> real z) = (real r \<le> real (z * 2 ^ k))"
    by (simp add: divide_le_eq)
  then show "(real r / 2 ^ k \<le> real z) = (r \<le> z * 2 ^ k)" by (simp only: of_nat_le_iff)
  have "(real z \<le> real r / 2 ^ k) = (real (z * 2 ^ k) \<le> real r)"
    by (simp add: le_divide_eq)
  then show "(real z \<le> real r / 2 ^ k) = (z * 2 ^ k \<le> r)" by (simp only: of_nat_le_iff)
  assume b: "0 < b"
  then have "(real a / real b \<le> real z) = (real a \<le> real (z * b))"
    by (simp add: divide_le_eq)
  then show "(real a / real b \<le> real z) = (a \<le> z * b)" by (simp only: of_nat_le_iff)
  from b have "(real z \<le> real a / real b) = (real (z * b) \<le> real a)"
    by (simp add: le_divide_eq)
  then show "(real z \<le> real a / real b) = (z * b \<le> a)" by (simp only: of_nat_le_iff)
qed

lemma safe_ratio_whole:
  assumes "0 < a" "a < 2 ^ 53" "0 < b" "b < 2 ^ 53"
  shows "\<exists>v. round_ratio neg a b (max (binade a b - 52) (- 1074))
             = Finite (if neg then - v else v)
           \<and> 0 < v \<and> \<lceil>v\<rceil> = \<lceil>real a / real b\<rceil> \<and> \<lfloor>v\<rfloor> = \<lfloor>real a / real b\<rfloor>"
proof -
  from safe_ratio [OF assms, of neg] obtain r k where
    rr: "round_ratio neg a b (max (binade a b - 52) (- 1074))
           = Finite (if neg then - (real r / 2 ^ k) else real r / 2 ^ k)"
    and r0: "0 < r"
    and le: "\<And>z. (r \<le> z * 2 ^ k) = (a \<le> z * b)"
    and ge: "\<And>z. (z * 2 ^ k \<le> r) = (z * b \<le> a)"
    by blast
  from r0 have v0: "0 < real r / 2 ^ k" by simp
  have q0: "0 \<le> real a / real b" by simp
  have "\<lceil>real r / 2 ^ k\<rceil> = \<lceil>real a / real b\<rceil>"
    using v0 q0 by (intro ceiling_eq_by_bounds) (simp_all only: scaled_le_real [OF assms(3)] le less_imp_le)
  moreover have "\<lfloor>real r / 2 ^ k\<rfloor> = \<lfloor>real a / real b\<rfloor>"
    using v0 q0 by (intro floor_eq_by_bounds) (simp_all only: scaled_le_real [OF assms(3)] ge less_imp_le)
  ultimately show ?thesis using rr v0 by blast
qed

lemma string_of_nat_0: "string_of_nat 0 = ''0''"
  by (simp add: string_of_nat.simps)

lemma ceil_div_text:
  assumes "0 < pods" "pods < 2 ^ 53" "\<bar>cw\<bar> < 2 ^ 53"
  shows "whole_toString (Math_ceil (js_div (number_of_int cw) (number_of_int pods)))
       = (if \<lceil>real_of_int cw / real_of_int pods\<rceil> < 0
          then CHR ''-'' # string_of_nat (nat (- \<lceil>real_of_int cw / real_of_int pods\<rceil>))
          else string_of_nat (nat \<lceil>real_of_int cw / real_of_int pods\<rceil>))"
proof -
  define a where "a = nat \<bar>cw\<bar>"
  define b where "b = nat pods"
  from assms have b: "0 < b" "b < 2 ^ 53" "real b = real_of_int pods"
    by (simp_all add: b_def nat_less_iff)
  from assms have a: "a < 2 ^ 53" "real a = \<bar>real_of_int cw\<bar>"
    by (simp_all add: a_def nat_less_iff)
  from assms have n: "number_of_int cw = Whole cw" "number_of_int pods = Whole pods"
    by (simp_all add: number_of_int_safe)
  have js: "js_div (Whole cw) (Whole pods)
      = (if cw = 0 then Finite 0
         else round_ratio (cw < 0) a b (max (binade a b - 52) (- 1074)))"
    using assms(1) by (simp add: js_div_def w_infinite_def w_zero_def w_negative_def
        magnitude_def a_def b_def)
  have one: "1 \<le> real b" using b(1) by simp
  have qa: "real a / real b \<le> real a"
  proof -
    have "real a / real b \<le> real a / 1" using one by (intro divide_left_mono) simp_all
    then show ?thesis by simp
  qed
  have ca: "nat \<lceil>real a / real b\<rceil> < 2 ^ 53"
  proof -
    have "\<lceil>real a / real b\<rceil> \<le> int a" using qa by (simp add: ceiling_le_iff)
    with a(1) show ?thesis by simp
  qed
  have fa: "nat \<lfloor>real a / real b\<rfloor> < 2 ^ 53"
  proof -
    have "\<lfloor>real a / real b\<rfloor> \<le> int a" using qa by (simp add: floor_le_iff)
    with a(1) show ?thesis by simp
  qed
  consider "cw = 0" | "0 < cw" | "cw < 0" by linarith
  then show ?thesis
  proof cases
    case 1
    then show ?thesis
      unfolding n js by (simp add: Math_ceil_def whole_toString_def nat_toString_safe)
  next
    case 2
    then have a0: "0 < a" and ra: "real a = real_of_int cw" by (simp_all add: a_def)
    from safe_ratio_whole [OF a0 a(1) b(1,2), of False] obtain v where
      rr: "round_ratio False a b (max (binade a b - 52) (- 1074)) = Finite v"
      and v0: "0 < v" and c: "\<lceil>v\<rceil> = \<lceil>real a / real b\<rceil>"
      by auto
    from v0 have k0: "0 < \<lceil>v\<rceil>" by simp
    have "whole_toString (Math_ceil (js_div (Whole cw) (Whole pods)))
        = nat_toString (nat \<lceil>v\<rceil>)"
      unfolding js using 2 rr k0 by (simp add: Math_ceil_def whole_toString_def)
    also have "\<dots> = string_of_nat (nat \<lceil>v\<rceil>)"
      using ca unfolding c by (rule nat_toString_safe)
    finally show ?thesis using k0 unfolding n c ra b(3) by simp
  next
    case 3
    then have a0: "0 < a" and ra: "real a = - real_of_int cw" by (simp_all add: a_def)
    from safe_ratio_whole [OF a0 a(1) b(1,2), of True] obtain v where
      rr: "round_ratio True a b (max (binade a b - 52) (- 1074)) = Finite (- v)"
      and v0: "0 < v" and f: "\<lfloor>v\<rfloor> = \<lfloor>real a / real b\<rfloor>"
      by auto
    have cv: "\<lceil>- v\<rceil> = - \<lfloor>v\<rfloor>" by (simp add: ceiling_minus)
    have q: "real_of_int cw / real_of_int pods = - (real a / real b)"
      by (simp add: ra b(3))
    have cq: "\<lceil>real_of_int cw / real_of_int pods\<rceil> = - \<lfloor>v\<rfloor>"
      unfolding q f by (simp add: ceiling_minus)
    from v0 have f0: "0 \<le> \<lfloor>v\<rfloor>" by simp
    show ?thesis
    proof (cases "\<lfloor>v\<rfloor> = 0")
      case True
      have "whole_toString (Math_ceil (js_div (Whole cw) (Whole pods))) = ''0''"
        unfolding js using 3 rr v0 True by (simp add: Math_ceil_def whole_toString_def cv)
      then show ?thesis unfolding n cq True by (simp add: string_of_nat_0)
    next
      case False
      from f0 False [THEN not_sym] have fp: "0 < \<lfloor>v\<rfloor>" by (rule le_neq_trans)
      have j: "js_div (Whole cw) (Whole pods) = Finite (- v)"
        unfolding js using 3 rr by simp
      have "whole_toString (Math_ceil (js_div (Whole cw) (Whole pods)))
          = CHR ''-'' # nat_toString (nat \<lfloor>v\<rfloor>)"
        unfolding j
        by (simp only: Math_ceil_def number.case cv neg_equal_0_iff_equal False if_False
            simp_thms whole_toString_def whole.case neg_less_0_iff_less fp if_True minus_minus)
      also have "nat_toString (nat \<lfloor>v\<rfloor>) = string_of_nat (nat \<lfloor>v\<rfloor>)"
        using fa unfolding f by (rule nat_toString_safe)
      finally show ?thesis using fp unfolding n cq by simp
    qed
  qed
qed

text \<open>Beyond \<open>2^53\<close> a count is rounded when it is read, and from \<open>10^21\<close> on it is printed
  in exponent form.\<close>

lemma number_toString_large:
  "number_toString (2 ^ 53 + 1) = ''9007199254740992''"
  "number_toString (10 ^ 21) = ''1e+21''"
  by (simp_all add: num_eval)

subsection \<open>Laws of the resolver\<close>

lemma port_strings: "number_toString 5432 = ''5432''" "number_toString 3306 = ''3306''"
  by (simp_all add: number_toString_safe string_of_nat.simps)

lemma rdsPersistence_postgres:
  assumes "Engine config = ''postgres'' \<or> Engine config = ''aurora-postgresql''"
  shows "\<exists>rs m. rdsPersistence env temporalConfig name config sg = (rs, Inr m)
           \<and> m ''NUM_HISTORY_SHARDS'' = Some (number_toString (Shards (History temporalConfig)))
           \<and> m ''DB'' = Some ''postgresql'' \<and> m ''DB_PORT'' = Some ''5432''
           \<and> m ''POSTGRES_SEEDS'' = Some (snd (rds_database env name config))
           \<and> m ''POSTGRES_USER'' = Some ''temporal'' \<and> m ''POSTGRES_PWD'' = Some ''temporal''
           \<and> m ''DBNAME'' = Some ''temporal_persistence''"
  using assms
  by (cases "rds_database env name config")
     (auto simp: rdsPersistence_def rds_engine_def port_strings)

lemma rdsPersistence_mysql:
  assumes "Engine config = ''mysql'' \<or> Engine config = ''aurora-mysql''"
  shows "\<exists>rs m. rdsPersistence env temporalConfig name config sg = (rs, Inr m)
           \<and> m ''NUM_HISTORY_SHARDS'' = Some (number_toString (Shards (History temporalConfig)))
           \<and> m ''DB'' = Some ''mysql'' \<and> m ''DB_PORT'' = Some ''3306''
           \<and> m ''MYSQL_SEEDS'' = Some (snd (rds_database env name config))
           \<and> m ''MYSQL_USER'' = Some ''temporal'' \<and> m ''MYSQL_PWD'' = Some ''temporal''
           \<and> m ''DBNAME'' = Some ''temporal_persistence''"
  using assms
  by (cases "rds_database env name config")
     (auto simp: rdsPersistence_def rds_engine_def port_strings)

lemma rdsPersistence_other:
  assumes "Engine config \<notin> {''postgres'', ''aurora-postgresql'', ''mysql'', ''aurora-mysql''}"
  shows "rdsPersistence env temporalConfig name config sg
           = ([], Inl (InvalidConfiguration ''invalid RDS config''))"
  using assms by (simp add: rdsPersistence_def rds_engine_def)

lemma cassandraPersistence_keys:
  "\<exists>rs m. cassandraPersistence temporalConfig name config cluster = (rs, m)
     \<and> m ''NUM_HISTORY_SHARDS'' = Some (number_toString (Shards (History temporalConfig)))
     \<and> m ''DB'' = Some ''cassandra'' \<and> m ''DB_PORT'' = Some ''9042''
     \<and> m ''CASSANDRA_SEEDS'' = Some ''cassandra.cassandra.svc.cluster.local''
     \<and> m ''CASSANDRA_USER'' = Some ''temporal'' \<and> m ''CASSANDRA_PASSWORD'' = Some ''temporal''
     \<and> m ''CASSANDRA_PWD'' = None
     \<and> m ''DBNAME'' = Some ''temporal_persistence''"
  by (simp add: cassandraPersistence_def)

lemma createAdvancedVisibility_dom:
  "dom (snd (createAdvancedVisibility v cluster)) \<subseteq> {''ENABLE_ES'', ''ES_SCHEMA'', ''ES_SEEDS'', ''ES_PORT''}"
  by (auto simp: createAdvancedVisibility_def opensearchVisibility_def
      split: option.splits if_splits)

lemma createPersistence_rds:
  assumes "RDS config = Some r"
  shows "createPersistence env temporalConfig config cluster
     = (case rdsPersistence env temporalConfig (Stack env) r (securityGroup cluster) of
          (rs, Inl e) \<Rightarrow> (rs, Inl e)
        | (rs, Inr p) \<Rightarrow>
            (rs @ fst (createAdvancedVisibility (Visibility config) cluster),
             Inr (p ++ snd (createAdvancedVisibility (Visibility config) cluster))))"
  using assms
  by (auto simp: createPersistence_def select_persistence_def split: prod.splits sum.splits)

lemma createPersistence_cassandra:
  assumes "RDS config = None" "Cassandra config = Some c"
  shows "createPersistence env temporalConfig config cluster
     = (fst (cassandraPersistence temporalConfig (Stack env) c cluster)
          @ fst (createAdvancedVisibility (Visibility config) cluster),
        Inr (snd (cassandraPersistence temporalConfig (Stack env) c cluster)
               ++ snd (createAdvancedVisibility (Visibility config) cluster)))"
  using assms
  by (auto simp: createPersistence_def select_persistence_def split: prod.splits sum.splits)

lemma createPersistence_none:
  assumes "RDS config = None" "Cassandra config = None"
  shows "createPersistence env temporalConfig config cluster
     = ([], Inl (InvalidConfiguration ''invalid persistence config''))"
  using assms by (simp add: createPersistence_def select_persistence_def)

lemma map_add_keep:
  assumes "dom v \<subseteq> D" "k \<notin> D"
  shows "(p ++ v) k = p k"
  using assms by (auto simp: map_add_def split: option.splits)

lemma createCluster_some:
  assumes "EKS cc = Some eks"
  shows "createCluster env cc pc
     = (fst (eksCluster env (Stack env) eks pc), Inr (snd (eksCluster env (Stack env) eks pc)))"
  using assms by (simp add: createCluster_def split: prod.splits)

lemma createCluster_none:
  assumes "EKS cc = None"
  shows "createCluster env cc pc = ([], Inl (InvalidConfiguration ''invalid cluster config''))"
  using assms by (simp add: createCluster_def)

lemma resolve_some:
  assumes "EKS cc = Some eks"
  shows "resolve env temporalConfig cc pc
     = (fst (eksCluster env (Stack env) eks pc)
          @ fst (createPersistence env temporalConfig pc (snd (eksCluster env (Stack env) eks pc))),
        snd (createPersistence env temporalConfig pc (snd (eksCluster env (Stack env) eks pc))))"
  by (simp add: resolve_def createCluster_some [OF assms] split: prod.splits)

section \<open>The claims\<close>

text \<open>
  Claim C1, as amended. A configuration with no cluster branch populated, or with no
  persistence branch populated, is rejected with \<open>InvalidConfiguration\<close>: the cluster
  builder and the whole resolution fail on a missing cluster branch, the persistence
  builder and the whole resolution fail on a missing persistence branch.
\<close>

theorem resolve_rejects_empty_choice:
  "(EKS cc = None \<longrightarrow>
      createCluster env cc pc = ([], Inl (InvalidConfiguration ''invalid cluster config''))
      \<and> resolve env temporalConfig cc pc
          = ([], Inl (InvalidConfiguration ''invalid cluster config'')))
   \<and> (RDS pc = None \<and> Cassandra pc = None \<longrightarrow>
      createPersistence env temporalConfig pc cluster
        = ([], Inl (InvalidConfiguration ''invalid persistence config''))
      \<and> (\<exists>rs msg. resolve env temporalConfig cc pc = (rs, Inl (InvalidConfiguration msg))))"
proof (intro conjI impI)
  assume n: "EKS cc = None"
  then show "createCluster env cc pc = ([], Inl (InvalidConfiguration ''invalid cluster config''))"
    by (rule createCluster_none)
  then show "resolve env temporalConfig cc pc
      = ([], Inl (InvalidConfiguration ''invalid cluster config''))"
    by (simp add: resolve_def)
next
  assume n: "RDS pc = None \<and> Cassandra pc = None"
  then show "createPersistence env temporalConfig pc cluster
      = ([], Inl (InvalidConfiguration ''invalid persistence config''))"
    by (simp add: createPersistence_none)
  show "\<exists>rs msg. resolve env temporalConfig cc pc = (rs, Inl (InvalidConfiguration msg))"
  proof (cases "EKS cc")
    case None
    then show ?thesis by (simp add: resolve_def createCluster_none)
  next
    case (Some eks)
    with n show ?thesis by (simp add: resolve_some createPersistence_none)
  qed
qed

theorem resolve_rejects_empty_choice_witness:
  "resolve sample_env sample_temporal \<lparr>EKS = None\<rparr> (sample_persistence ''postgres'')
     = ([], Inl (InvalidConfiguration ''invalid cluster config''))
   \<and> createPersistence sample_env sample_temporal sample_no_persistence sample_cluster
       = ([], Inl (InvalidConfiguration ''invalid persistence config''))
   \<and> (\<exists>rs msg. resolve sample_env sample_temporal sample_eks sample_no_persistence
                  = (rs, Inl (InvalidConfiguration msg)))"
proof -
  have h: "EKS \<lparr>EKS = None\<rparr> = None"
    "RDS sample_no_persistence = None \<and> Cassandra sample_no_persistence = None"
    by (simp_all add: sample_no_persistence_def)
  from resolve_rejects_empty_choice [of "\<lparr>EKS = None\<rparr>" sample_env
      "sample_persistence ''postgres''" sample_temporal sample_cluster] h(1)
  have a: "resolve sample_env sample_temporal \<lparr>EKS = None\<rparr> (sample_persistence ''postgres'')
     = ([], Inl (InvalidConfiguration ''invalid cluster config''))"
    by blast
  from resolve_rejects_empty_choice [of sample_eks sample_env sample_no_persistence
      sample_temporal sample_cluster] h(2)
  have b: "createPersistence sample_env sample_temporal sample_no_persistence sample_cluster
       = ([], Inl (InvalidConfiguration ''invalid persistence config''))
   \<and> (\<exists>rs msg. resolve sample_env sample_temporal sample_eks sample_no_persistence
                  = (rs, Inl (InvalidConfiguration msg)))"
    by blast
  from a b show ?thesis by blast
qed

theorem two_branches_counterexample:
  "RDS (sample_persistence ''postgres'') \<noteq> None
   \<and> Cassandra (sample_persistence ''postgres'') \<noteq> None
   \<and> (\<exists>rs m. resolve sample_env sample_temporal sample_eks (sample_persistence ''postgres'')
                = (rs, Inr m))"
proof -
  have e: "EKS sample_eks
      = Some \<lparr>EKSClusterConfig.EnvironmentStackName = ''env'',
              EKSClusterConfig.NodeType = ''m5.large'', EKSClusterConfig.NodeCount = 3\<rparr>"
    by (simp add: sample_eks_def)
  have r: "RDS (sample_persistence ''postgres'') = Some (sample_rds ''postgres'')"
    "Cassandra (sample_persistence ''postgres'') = Some sample_cassandra"
    by (simp_all add: sample_persistence_def)
  have "Engine (sample_rds ''postgres'') = ''postgres''
      \<or> Engine (sample_rds ''postgres'') = ''aurora-postgresql''"
    by (simp add: sample_rds_def)
  note pg = this
  let ?k = "snd (eksCluster sample_env (Stack sample_env)
      \<lparr>EKSClusterConfig.EnvironmentStackName = ''env'',
       EKSClusterConfig.NodeType = ''m5.large'', EKSClusterConfig.NodeCount = 3\<rparr>
      (sample_persistence ''postgres''))"
  from rdsPersistence_postgres [OF pg, of sample_env sample_temporal "Stack sample_env"
      "securityGroup ?k"]
  obtain rs p where
    "rdsPersistence sample_env sample_temporal (Stack sample_env) (sample_rds ''postgres'')
       (securityGroup ?k) = (rs, Inr p)"
    by blast
  then have "\<exists>rs m. createPersistence sample_env sample_temporal
      (sample_persistence ''postgres'') ?k = (rs, Inr m)"
    by (simp add: createPersistence_rds [OF r(1)])
  then obtain rs' m where
    "createPersistence sample_env sample_temporal (sample_persistence ''postgres'') ?k
       = (rs', Inr m)"
    by blast
  then have "\<exists>rs m. resolve sample_env sample_temporal sample_eks (sample_persistence ''postgres'')
      = (rs, Inr m)"
    by (simp add: resolve_some [OF e])
  with r show ?thesis by simp
qed

text \<open>
  Claim C2. On an object that the Limit Setter targets (kind Deployment, matching name),
  whenever the setter returns, each of the four resource fields of the first container
  holds the source value if that value is truthy and reads exactly as before the call
  otherwise, and every path that diverges from the four fields reads as before. So with
  only a CPU request given, the memory request, the memory limit and the CPU limit are
  untouched. The setter returns whenever the container's \<^verbatim>\<open>resources.requests\<close> and
  \<^verbatim>\<open>resources.limits\<close> are objects.
\<close>

theorem setLimits_frame:
  assumes "is_target ''Deployment'' name obj = Inr True"
  shows "(setLimits name cpu memory obj = Inr obj' \<longrightarrow>
            get_path (container_path @ [''resources'', ''requests'', ''cpu'']) obj'
              = (if truthy (cpu_request cpu) then Inr (JStr (the (cpu_request cpu)))
                 else get_path (container_path @ [''resources'', ''requests'', ''cpu'']) obj)
          \<and> get_path (container_path @ [''resources'', ''limits'', ''cpu'']) obj'
              = (if truthy (cpu_limit cpu) then Inr (JStr (the (cpu_limit cpu)))
                 else get_path (container_path @ [''resources'', ''limits'', ''cpu'']) obj)
          \<and> get_path (container_path @ [''resources'', ''requests'', ''memory'']) obj'
              = (if truthy (memory_request memory) then Inr (JStr (the (memory_request memory)))
                 else get_path (container_path @ [''resources'', ''requests'', ''memory'']) obj)
          \<and> get_path (container_path @ [''resources'', ''limits'', ''memory'']) obj'
              = (if truthy (memory_limit memory) then Inr (JStr (the (memory_limit memory)))
                 else get_path (container_path @ [''resources'', ''limits'', ''memory'']) obj)
          \<and> (\<forall>q. (\<forall>p \<in> set limit_paths. diverge p q) \<longrightarrow> get_path q obj' = get_path q obj))
       \<and> ((\<exists>rq lm. get_path (container_path @ [''resources'', ''requests'']) obj = Inr (JObj rq)
                  \<and> get_path (container_path @ [''resources'', ''limits'']) obj = Inr (JObj lm))
           \<longrightarrow> (\<exists>obj'. setLimits name cpu memory obj = Inr obj'))"
proof (intro conjI impI allI)
  assume r: "setLimits name cpu memory obj = Inr obj'"
  from setLimits_steps [OF assms r] obtain o1 o2 o3 where
    s1: "set_if (cpu_request cpu) (container_path @ [''resources'', ''requests'', ''cpu'']) obj
           = Inr o1"
    and s2: "set_if (cpu_limit cpu) (container_path @ [''resources'', ''limits'', ''cpu'']) o1
           = Inr o2"
    and s3: "set_if (memory_request memory)
               (container_path @ [''resources'', ''requests'', ''memory'']) o2 = Inr o3"
    and s4: "set_if (memory_limit memory)
               (container_path @ [''resources'', ''limits'', ''memory'']) o3 = Inr obj'"
    by blast
  note d = limit_paths_diverge
  note g1 = set_if_get [OF s1] and g2 = set_if_get [OF s2]
    and g3 = set_if_get [OF s3] and g4 = set_if_get [OF s4]
  show "get_path (container_path @ [''resources'', ''requests'', ''cpu'']) obj'
      = (if truthy (cpu_request cpu) then Inr (JStr (the (cpu_request cpu)))
         else get_path (container_path @ [''resources'', ''requests'', ''cpu'']) obj)"
    using g1(1) g2(2) [OF d(1) [THEN diverge_sym]] g3(2) [OF d(2) [THEN diverge_sym]]
      g4(2) [OF d(3) [THEN diverge_sym]]
    by (simp only:)
  show "get_path (container_path @ [''resources'', ''limits'', ''cpu'']) obj'
      = (if truthy (cpu_limit cpu) then Inr (JStr (the (cpu_limit cpu)))
         else get_path (container_path @ [''resources'', ''limits'', ''cpu'']) obj)"
    using g1(2) [OF d(1)] g2(1) g3(2) [OF d(4) [THEN diverge_sym]]
      g4(2) [OF d(5) [THEN diverge_sym]]
    by (simp only:)
  show "get_path (container_path @ [''resources'', ''requests'', ''memory'']) obj'
      = (if truthy (memory_request memory) then Inr (JStr (the (memory_request memory)))
         else get_path (container_path @ [''resources'', ''requests'', ''memory'']) obj)"
    using g1(2) [OF d(2)] g2(2) [OF d(4)] g3(1) g4(2) [OF d(6) [THEN diverge_sym]]
    by (simp only:)
  show "get_path (container_path @ [''resources'', ''limits'', ''memory'']) obj'
      = (if truthy (memory_limit memory) then Inr (JStr (the (memory_limit memory)))
         else get_path (container_path @ [''resources'', ''limits'', ''memory'']) obj)"
    using g1(2) [OF d(3)] g2(2) [OF d(5)] g3(2) [OF d(6)] g4(1)
    by (simp only:)
  fix q
  assume "\<forall>p \<in> set limit_paths. diverge p q"
  then have "diverge (container_path @ [''resources'', ''requests'', ''cpu'']) q"
    "diverge (container_path @ [''resources'', ''limits'', ''cpu'']) q"
    "diverge (container_path @ [''resources'', ''requests'', ''memory'']) q"
    "diverge (container_path @ [''resources'', ''limits'', ''memory'']) q"
    by (simp_all add: limit_paths_def)
  with g1(2) g2(2) g3(2) g4(2) show "get_path q obj' = get_path q obj" by simp
next
  assume "\<exists>rq lm. get_path (container_path @ [''resources'', ''requests'']) obj = Inr (JObj rq)
                  \<and> get_path (container_path @ [''resources'', ''limits'']) obj = Inr (JObj lm)"
  then obtain rq lm where
    rq: "get_path (container_path @ [''resources'', ''requests'']) obj = Inr (JObj rq)"
    and lm: "get_path (container_path @ [''resources'', ''limits'']) obj = Inr (JObj lm)"
    by blast
  have st: "settable (JObj m)" for m by (simp add: settable_def)
  have cp: "\<exists>c. get_path container_path obj = Inr c"
    using rq by (cases "get_path container_path obj") (simp_all add: get_path_append)
  note d = limit_paths_diverge
  have ap: "(p @ [a]) @ [b] = p @ [a, b]" for p :: "string list" and a b by simp
  from set_if_total [OF rq st, of "cpu_request cpu" "''cpu''"]
  obtain o1 where s1: "set_if (cpu_request cpu)
      (container_path @ [''resources'', ''requests'', ''cpu'']) obj = Inr o1"
    unfolding append_assoc by auto
  from set_if_parent [of "cpu_request cpu" "container_path @ [''resources'', ''requests'']"
      "''cpu''" obj o1] s1 rq st
  obtain c1 where rq1: "get_path (container_path @ [''resources'', ''requests'']) o1 = Inr c1"
    and c1: "settable c1" by auto
  have lm1: "get_path (container_path @ [''resources'', ''limits'']) o1 = Inr (JObj lm)"
    using set_if_get(2) [OF s1 d(7)] lm by simp
  from set_if_total [OF lm1 st, of "cpu_limit cpu" "''cpu''"]
  obtain o2 where s2: "set_if (cpu_limit cpu)
      (container_path @ [''resources'', ''limits'', ''cpu'']) o1 = Inr o2"
    by auto
  from set_if_parent [of "cpu_limit cpu" "container_path @ [''resources'', ''limits'']"
      "''cpu''" o1 o2] s2 lm1 st
  obtain c2 where lm2: "get_path (container_path @ [''resources'', ''limits'']) o2 = Inr c2"
    and c2: "settable c2" by auto
  have rq2: "get_path (container_path @ [''resources'', ''requests'']) o2 = Inr c1"
    using set_if_get(2) [OF s2 d(8)] rq1 by simp
  from set_if_total [OF rq2 c1, of "memory_request memory" "''memory''"]
  obtain o3 where s3: "set_if (memory_request memory)
      (container_path @ [''resources'', ''requests'', ''memory'']) o2 = Inr o3"
    by auto
  have lm3: "get_path (container_path @ [''resources'', ''limits'']) o3 = Inr c2"
    using set_if_get(2) [OF s3 d(9)] lm2 by simp
  from set_if_total [OF lm3 c2, of "memory_limit memory" "''memory''"]
  obtain o4 where s4: "set_if (memory_limit memory)
      (container_path @ [''resources'', ''limits'', ''memory'']) o3 = Inr o4"
    by auto
  from cp s1 s2 s3 s4 assms show "\<exists>obj'. setLimits name cpu memory obj = Inr obj'"
    by (auto simp: setLimits_def)
qed

theorem setLimits_frame_witness:
  "\<exists>obj'. setLimits ''temporal-frontend'' (Some sample_limits) None
             (sample_deployment ''temporal-frontend'') = Inr obj'
     \<and> get_path (container_path @ [''resources'', ''requests'', ''cpu'']) obj' = Inr (JStr ''500m'')
     \<and> get_path (container_path @ [''resources'', ''limits'', ''cpu'']) obj' = Inr (JStr ''200m'')
     \<and> get_path (container_path @ [''resources'', ''requests'', ''memory'']) obj' = Inr (JStr ''1Gi'')
     \<and> get_path (container_path @ [''resources'', ''limits'', ''memory'']) obj' = Inr (JStr ''2Gi'')"
proof -
  let ?obj = "sample_deployment ''temporal-frontend''"
  have tg: "is_target ''Deployment'' ''temporal-frontend'' ?obj = Inr True"
    by (simp add: sample_deployment_def eval_simps)
  have wf: "\<exists>rq lm. get_path (container_path @ [''resources'', ''requests'']) ?obj = Inr (JObj rq)
                  \<and> get_path (container_path @ [''resources'', ''limits'']) ?obj = Inr (JObj lm)"
    by (simp add: sample_deployment_def eval_simps)
  have before:
    "get_path (container_path @ [''resources'', ''limits'', ''cpu'']) ?obj = Inr (JStr ''200m'')"
    "get_path (container_path @ [''resources'', ''requests'', ''memory'']) ?obj = Inr (JStr ''1Gi'')"
    "get_path (container_path @ [''resources'', ''limits'', ''memory'']) ?obj = Inr (JStr ''2Gi'')"
    by (simp_all add: sample_deployment_def eval_simps)
  have src: "truthy (cpu_request (Some sample_limits))" "the (cpu_request (Some sample_limits)) = ''500m''"
    "\<not> truthy (cpu_limit (Some sample_limits))" "\<not> truthy (memory_request None)"
    "\<not> truthy (memory_limit None)"
    by (simp_all add: truthy_def cpu_request_def cpu_limit_def memory_request_def
        memory_limit_def sample_limits_def)
  from setLimits_frame [OF tg, of "Some sample_limits" None] wf
  obtain obj' where r: "setLimits ''temporal-frontend'' (Some sample_limits) None ?obj = Inr obj'"
    by blast
  from setLimits_frame [OF tg, of "Some sample_limits" None obj'] r src before
  have "get_path (container_path @ [''resources'', ''requests'', ''cpu'']) obj' = Inr (JStr ''500m'')
     \<and> get_path (container_path @ [''resources'', ''limits'', ''cpu'']) obj' = Inr (JStr ''200m'')
     \<and> get_path (container_path @ [''resources'', ''requests'', ''memory'']) obj' = Inr (JStr ''1Gi'')
     \<and> get_path (container_path @ [''resources'', ''limits'', ''memory'']) obj' = Inr (JStr ''2Gi'')"
    by simp
  with r show ?thesis by blast
qed



text \<open>
  Claim C4. For every manifest group and every list of transformations built from the
  Replica Scaler, the Limit Setter and the Toleration Setter, applying the list a second
  time to the outcome of the first application gives the outcome of the first application:
  two passes in sequence equal one pass, also when the pass throws. This holds for the
  pass that takes the transformations one by one over the group and for the pass that
  takes the objects one by one through the list, and the two passes complete with the
  same objects.
\<close>

theorem reapply_idempotent:
  "bindE (apply_transformations (map transform trs) g)
         (apply_transformations (map transform trs))
     = apply_transformations (map transform trs) g
   \<and> bindE (apply_per_object (map transform trs) g) (apply_per_object (map transform trs))
     = apply_per_object (map transform trs) g
   \<and> (apply_transformations (map transform trs) g = Inr g'
        \<longleftrightarrow> apply_per_object (map transform trs) g = Inr g')"
proof (intro conjI)
  show "bindE (apply_transformations (map transform trs) g)
         (apply_transformations (map transform trs))
     = apply_transformations (map transform trs) g"
  proof (cases "apply_transformations (map transform trs) g")
    case (Inl e)
    then show ?thesis by simp
  next
    case (Inr g1)
    then have "list_all2 (\<lambda>x y. run (map transform trs) x = Inr y) g g1"
      by (simp only: apply_transformations_Inr_iff)
    then have "list_all2 (\<lambda>x y. run (map transform trs) x = Inr y) g1 g1"
      unfolding list_all2_conv_all_nth by (auto intro: run_idem)
    then have "apply_transformations (map transform trs) g1 = Inr g1"
      by (simp only: apply_transformations_Inr_iff)
    with Inr show ?thesis by simp
  qed
  show "bindE (apply_per_object (map transform trs) g) (apply_per_object (map transform trs))
     = apply_per_object (map transform trs) g"
  proof (cases "apply_per_object (map transform trs) g")
    case (Inl e)
    then show ?thesis by simp
  next
    case (Inr g1)
    then have "list_all2 (\<lambda>x y. run (map transform trs) x = Inr y) g g1"
      by (simp only: apply_per_object_def for_each_Inr_iff)
    then have "list_all2 (\<lambda>x y. run (map transform trs) x = Inr y) g1 g1"
      unfolding list_all2_conv_all_nth by (auto intro: run_idem)
    then have "apply_per_object (map transform trs) g1 = Inr g1"
      by (simp only: apply_per_object_def for_each_Inr_iff)
    with Inr show ?thesis by simp
  qed
  show "apply_transformations (map transform trs) g = Inr g'
        \<longleftrightarrow> apply_per_object (map transform trs) g = Inr g'"
    by (simp only: apply_per_object_def for_each_Inr_iff apply_transformations_Inr_iff)
qed

theorem reapply_idempotent_witness:
  "\<exists>g1. apply_transformations (map transform (temporal_transformations sample_temporal))
            sample_group = Inr g1
     \<and> apply_transformations (map transform (temporal_transformations sample_temporal)) g1
         = Inr g1"
proof -
  have "\<exists>g1. apply_transformations (map transform (temporal_transformations sample_temporal))
            sample_group = Inr g1"
    by (simp add: temporal_transformations_def sample_temporal_def sample_limits_def
        sample_group_def sample_deployment_def sample_service_def eval_simps
        scaleDeployment_def setLimits_def tolerateDedicated_def set_if_def truthy_def
        cpu_request_def cpu_limit_def memory_request_def memory_limit_def toleration_def)
  then obtain g1 where
    g1: "apply_transformations (map transform (temporal_transformations sample_temporal))
           sample_group = Inr g1"
    by blast
  from reapply_idempotent [of "temporal_transformations sample_temporal" sample_group] g1
  have "apply_transformations (map transform (temporal_transformations sample_temporal)) g1
      = Inr g1"
    by (simp del: apply_transformations.simps)
  with g1 show ?thesis by blast
qed

text \<open>
  Claim C5, as amended. Every output map of a successful persistence resolution has the
  keys \<^verbatim>\<open>DB\<close>, \<^verbatim>\<open>DB_PORT\<close>, \<^verbatim>\<open>DBNAME\<close> and \<^verbatim>\<open>NUM_HISTORY_SHARDS\<close>. For a relational
  database it has the family prefix (\<^verbatim>\<open>POSTGRES_\<close> or \<^verbatim>\<open>MYSQL_\<close>) combined with
  \<^verbatim>\<open>SEEDS\<close>, \<^verbatim>\<open>USER\<close> and \<^verbatim>\<open>PWD\<close>. For Cassandra it has \<^verbatim>\<open>CASSANDRA_SEEDS\<close>,
  \<^verbatim>\<open>CASSANDRA_USER\<close> and \<^verbatim>\<open>CASSANDRA_PASSWORD\<close>, and no key \<^verbatim>\<open>CASSANDRA_PWD\<close>.
\<close>

theorem createPersistence_keys:
  assumes "createPersistence env temporalConfig config cluster = (rs, Inr m)"
  shows "{''DB'', ''DB_PORT'', ''DBNAME'', ''NUM_HISTORY_SHARDS''} \<subseteq> dom m
       \<and> (\<forall>r. RDS config = Some r \<longrightarrow>
             (Engine r \<in> {''postgres'', ''aurora-postgresql''} \<longrightarrow>
                {''POSTGRES_SEEDS'', ''POSTGRES_USER'', ''POSTGRES_PWD''} \<subseteq> dom m)
           \<and> (Engine r \<in> {''mysql'', ''aurora-mysql''} \<longrightarrow>
                {''MYSQL_SEEDS'', ''MYSQL_USER'', ''MYSQL_PWD''} \<subseteq> dom m))
       \<and> (RDS config = None \<longrightarrow>
             {''CASSANDRA_SEEDS'', ''CASSANDRA_USER'', ''CASSANDRA_PASSWORD''} \<subseteq> dom m
           \<and> ''CASSANDRA_PWD'' \<notin> dom m)"
proof (cases "RDS config")
  case (Some r)
  let ?v = "snd (createAdvancedVisibility (Visibility config) cluster)"
  from assms Some obtain rs' p where
    p: "rdsPersistence env temporalConfig (Stack env) r (securityGroup cluster) = (rs', Inr p)"
    and m: "m = p ++ ?v"
    by (auto simp: createPersistence_rds split: prod.splits sum.splits)
  have rec: "Engine r \<in> {''postgres'', ''aurora-postgresql'', ''mysql'', ''aurora-mysql''}"
    using p rdsPersistence_other [of r env temporalConfig "Stack env" "securityGroup cluster"]
    by auto
  have sub: "dom p \<subseteq> dom m" using m by auto
  show ?thesis
  proof (cases "Engine r = ''postgres'' \<or> Engine r = ''aurora-postgresql''")
    case True
    from rdsPersistence_postgres [OF True, of env temporalConfig "Stack env" "securityGroup cluster"]
      p
    have "{''DB'', ''DB_PORT'', ''DBNAME'', ''NUM_HISTORY_SHARDS'',
           ''POSTGRES_SEEDS'', ''POSTGRES_USER'', ''POSTGRES_PWD''} \<subseteq> dom p"
      by auto
    with sub Some True show ?thesis by auto
  next
    case False
    with rec have my: "Engine r = ''mysql'' \<or> Engine r = ''aurora-mysql''" by auto
    from rdsPersistence_mysql [OF my, of env temporalConfig "Stack env" "securityGroup cluster"] p
    have "{''DB'', ''DB_PORT'', ''DBNAME'', ''NUM_HISTORY_SHARDS'',
           ''MYSQL_SEEDS'', ''MYSQL_USER'', ''MYSQL_PWD''} \<subseteq> dom p"
      by auto
    with sub Some my show ?thesis by auto
  qed
next
  case None
  let ?v = "snd (createAdvancedVisibility (Visibility config) cluster)"
  from assms None obtain c where c: "Cassandra config = Some c"
    by (cases "Cassandra config") (auto simp: createPersistence_none)
  let ?p = "snd (cassandraPersistence temporalConfig (Stack env) c cluster)"
  from assms None c have m: "m = ?p ++ ?v" by (simp add: createPersistence_cassandra)
  from cassandraPersistence_keys [of temporalConfig "Stack env" c cluster]
  have k: "{''DB'', ''DB_PORT'', ''DBNAME'', ''NUM_HISTORY_SHARDS'',
            ''CASSANDRA_SEEDS'', ''CASSANDRA_USER'', ''CASSANDRA_PASSWORD''} \<subseteq> dom ?p"
    and n: "?p ''CASSANDRA_PWD'' = None"
    by auto
  have "m ''CASSANDRA_PWD'' = ?p ''CASSANDRA_PWD''"
    unfolding m using createAdvancedVisibility_dom [of "Visibility config" cluster]
    by (rule map_add_keep) simp
  with n have "''CASSANDRA_PWD'' \<notin> dom m" by auto
  moreover have "dom ?p \<subseteq> dom m" using m by auto
  ultimately show ?thesis using k None by auto
qed

theorem createPersistence_keys_witness:
  "(\<exists>rs m. createPersistence sample_env sample_temporal (sample_persistence ''postgres'')
              sample_cluster = (rs, Inr m)
      \<and> ''DB'' \<in> dom m \<and> ''DB_PORT'' \<in> dom m \<and> ''DBNAME'' \<in> dom m
      \<and> ''NUM_HISTORY_SHARDS'' \<in> dom m
      \<and> ''POSTGRES_SEEDS'' \<in> dom m \<and> ''POSTGRES_USER'' \<in> dom m \<and> ''POSTGRES_PWD'' \<in> dom m)
   \<and> (\<exists>rs m. createPersistence sample_env sample_temporal sample_cassandra_only sample_cluster
              = (rs, Inr m)
      \<and> ''DB'' \<in> dom m \<and> ''CASSANDRA_SEEDS'' \<in> dom m \<and> ''CASSANDRA_USER'' \<in> dom m
      \<and> ''CASSANDRA_PASSWORD'' \<in> dom m)"
proof -
  have r1: "RDS (sample_persistence ''postgres'') = Some (sample_rds ''postgres'')"
    "Engine (sample_rds ''postgres'') \<in> {''postgres'', ''aurora-postgresql''}"
    by (simp_all add: sample_persistence_def sample_rds_def)
  have "Engine (sample_rds ''postgres'') = ''postgres''
      \<or> Engine (sample_rds ''postgres'') = ''aurora-postgresql''"
    by (simp add: sample_rds_def)
  from rdsPersistence_postgres [OF this, of sample_env sample_temporal "Stack sample_env"
      "securityGroup sample_cluster"]
  obtain rs1 m1 where e1: "createPersistence sample_env sample_temporal
      (sample_persistence ''postgres'') sample_cluster = (rs1, Inr m1)"
    by (auto simp: createPersistence_rds [OF r1(1)])
  have r2: "RDS sample_cassandra_only = None" "Cassandra sample_cassandra_only = Some sample_cassandra"
    by (simp_all add: sample_cassandra_only_def)
  obtain rs2 m2 where e2: "createPersistence sample_env sample_temporal sample_cassandra_only
      sample_cluster = (rs2, Inr m2)"
    by (simp add: createPersistence_cassandra [OF r2])
  from createPersistence_keys [OF e1] r1
  have "''DB'' \<in> dom m1 \<and> ''DB_PORT'' \<in> dom m1 \<and> ''DBNAME'' \<in> dom m1
      \<and> ''NUM_HISTORY_SHARDS'' \<in> dom m1
      \<and> ''POSTGRES_SEEDS'' \<in> dom m1 \<and> ''POSTGRES_USER'' \<in> dom m1 \<and> ''POSTGRES_PWD'' \<in> dom m1"
    by auto
  moreover from createPersistence_keys [OF e2] r2
  have "''DB'' \<in> dom m2 \<and> ''CASSANDRA_SEEDS'' \<in> dom m2 \<and> ''CASSANDRA_USER'' \<in> dom m2
      \<and> ''CASSANDRA_PASSWORD'' \<in> dom m2"
    by auto
  ultimately show ?thesis using e1 e2 by blast
qed

theorem cassandra_pwd_counterexample:
  "\<exists>rs m. createPersistence sample_env sample_temporal sample_cassandra_only sample_cluster
            = (rs, Inr m)
     \<and> ''CASSANDRA_PWD'' \<notin> dom m
     \<and> m ''CASSANDRA_PASSWORD'' = Some ''temporal''"
proof -
  have r2: "RDS sample_cassandra_only = None" "Cassandra sample_cassandra_only = Some sample_cassandra"
    "Visibility sample_cassandra_only = None"
    by (simp_all add: sample_cassandra_only_def)
  show ?thesis
    unfolding createPersistence_cassandra [OF r2(1,2)] r2(3)
    by (simp add: cassandraPersistence_def createAdvancedVisibility_def dom_def)
qed

text \<open>
  Claim C6. A pass of the Toleration Setter with value \<open>v\<close> over a group keeps the
  number of objects; on every object whose kind is Deployment, whatever its name, the
  path \<^verbatim>\<open>spec.template.spec.tolerations\<close> then holds the one-entry list
  (key "dedicated", operator "Equal", value \<open>v\<close>, effect "NoSchedule"): an array of one
  object with exactly these four properties, whose entry 0 reads key "dedicated", operator
  "Equal", value \<open>v\<close>, effect "NoSchedule" and which has no entry 1; every path that
  diverges from it reads as before; every other object is returned as it was. The pass
  completes whenever each object has a readable kind and each Deployment has an object at
  \<^verbatim>\<open>spec.template.spec\<close>.
\<close>

theorem tolerateDedicated_group:
  "(apply_transformations [tolerateDedicated v] g = Inr g' \<longrightarrow>
      length g' = length g \<and>
      (\<forall>i < length g.
         (get_prop ''kind'' (g ! i) = Inr (JStr ''Deployment'') \<longrightarrow>
            get_path [''spec'', ''template'', ''spec'', ''tolerations''] (g' ! i) = Inr (toleration v)
            \<and> get_path [''spec'', ''template'', ''spec'', ''tolerations''] (g' ! i)
                = Inr (JArr [JObj (fmap_of_list
                         [(''key'', JStr ''dedicated''), (''operator'', JStr ''Equal''),
                          (''value'', JStr v), (''effect'', JStr ''NoSchedule'')])] fmempty)
            \<and> get_path [''spec'', ''template'', ''spec'', ''tolerations'', ''0'', ''key'']
                  (g' ! i) = Inr (JStr ''dedicated'')
            \<and> get_path [''spec'', ''template'', ''spec'', ''tolerations'', ''0'', ''operator'']
                  (g' ! i) = Inr (JStr ''Equal'')
            \<and> get_path [''spec'', ''template'', ''spec'', ''tolerations'', ''0'', ''value'']
                  (g' ! i) = Inr (JStr v)
            \<and> get_path [''spec'', ''template'', ''spec'', ''tolerations'', ''0'', ''effect'']
                  (g' ! i) = Inr (JStr ''NoSchedule'')
            \<and> get_path [''spec'', ''template'', ''spec'', ''tolerations'', ''1''] (g' ! i)
                = Inr JUndefined
            \<and> (\<forall>q. diverge [''spec'', ''template'', ''spec'', ''tolerations''] q \<longrightarrow>
                  get_path q (g' ! i) = get_path q (g ! i)))
       \<and> (get_prop ''kind'' (g ! i) \<noteq> Inr (JStr ''Deployment'') \<longrightarrow> g' ! i = g ! i)))
   \<and> ((\<forall>t \<in> set g. \<exists>k. get_prop ''kind'' t = Inr k
           \<and> (k = JStr ''Deployment'' \<longrightarrow>
                (\<exists>m. get_path [''spec'', ''template'', ''spec''] t = Inr (JObj m))))
        \<longrightarrow> (\<exists>g'. apply_transformations [tolerateDedicated v] g = Inr g'))"
proof (intro conjI impI)
  assume a: "apply_transformations [tolerateDedicated v] g = Inr g'"
  then have l: "list_all2 (\<lambda>x y. tolerateDedicated v x = Inr y) g g'"
    by (simp only: for_each_single for_each_Inr_iff)
  then show "length g' = length g" by (simp add: list_all2_lengthD)
  show "\<forall>i < length g.
         (get_prop ''kind'' (g ! i) = Inr (JStr ''Deployment'') \<longrightarrow>
            get_path [''spec'', ''template'', ''spec'', ''tolerations''] (g' ! i) = Inr (toleration v)
            \<and> get_path [''spec'', ''template'', ''spec'', ''tolerations''] (g' ! i)
                = Inr (JArr [JObj (fmap_of_list
                         [(''key'', JStr ''dedicated''), (''operator'', JStr ''Equal''),
                          (''value'', JStr v), (''effect'', JStr ''NoSchedule'')])] fmempty)
            \<and> get_path [''spec'', ''template'', ''spec'', ''tolerations'', ''0'', ''key'']
                  (g' ! i) = Inr (JStr ''dedicated'')
            \<and> get_path [''spec'', ''template'', ''spec'', ''tolerations'', ''0'', ''operator'']
                  (g' ! i) = Inr (JStr ''Equal'')
            \<and> get_path [''spec'', ''template'', ''spec'', ''tolerations'', ''0'', ''value'']
                  (g' ! i) = Inr (JStr v)
            \<and> get_path [''spec'', ''template'', ''spec'', ''tolerations'', ''0'', ''effect'']
                  (g' ! i) = Inr (JStr ''NoSchedule'')
            \<and> get_path [''spec'', ''template'', ''spec'', ''tolerations'', ''1''] (g' ! i)
                = Inr JUndefined
            \<and> (\<forall>q. diverge [''spec'', ''template'', ''spec'', ''tolerations''] q \<longrightarrow>
                  get_path q (g' ! i) = get_path q (g ! i)))
       \<and> (get_prop ''kind'' (g ! i) \<noteq> Inr (JStr ''Deployment'') \<longrightarrow> g' ! i = g ! i)"
  proof (intro allI impI)
    fix i assume i: "i < length g"
    have "tolerateDedicated v (g ! i) = Inr (g' ! i)" using list_all2_nthD [OF l i] by simp
    from tolerateDedicated_result [OF this] obtain k where k: "get_prop ''kind'' (g ! i) = Inr k"
      and r: "if k = JStr ''Deployment''
              then assign [''spec'', ''template'', ''spec'', ''tolerations''] (toleration v) (g ! i)
                     = Inr (g' ! i)
              else g' ! i = g ! i"
      by blast
    show "(get_prop ''kind'' (g ! i) = Inr (JStr ''Deployment'') \<longrightarrow>
            get_path [''spec'', ''template'', ''spec'', ''tolerations''] (g' ! i) = Inr (toleration v)
            \<and> get_path [''spec'', ''template'', ''spec'', ''tolerations''] (g' ! i)
                = Inr (JArr [JObj (fmap_of_list
                         [(''key'', JStr ''dedicated''), (''operator'', JStr ''Equal''),
                          (''value'', JStr v), (''effect'', JStr ''NoSchedule'')])] fmempty)
            \<and> get_path [''spec'', ''template'', ''spec'', ''tolerations'', ''0'', ''key'']
                  (g' ! i) = Inr (JStr ''dedicated'')
            \<and> get_path [''spec'', ''template'', ''spec'', ''tolerations'', ''0'', ''operator'']
                  (g' ! i) = Inr (JStr ''Equal'')
            \<and> get_path [''spec'', ''template'', ''spec'', ''tolerations'', ''0'', ''value'']
                  (g' ! i) = Inr (JStr v)
            \<and> get_path [''spec'', ''template'', ''spec'', ''tolerations'', ''0'', ''effect'']
                  (g' ! i) = Inr (JStr ''NoSchedule'')
            \<and> get_path [''spec'', ''template'', ''spec'', ''tolerations'', ''1''] (g' ! i)
                = Inr JUndefined
            \<and> (\<forall>q. diverge [''spec'', ''template'', ''spec'', ''tolerations''] q \<longrightarrow>
                  get_path q (g' ! i) = get_path q (g ! i)))
       \<and> (get_prop ''kind'' (g ! i) \<noteq> Inr (JStr ''Deployment'') \<longrightarrow> g' ! i = g ! i)"
    proof (cases "k = JStr ''Deployment''")
      case True
      with r have "assign [''spec'', ''template'', ''spec'', ''tolerations''] (toleration v) (g ! i)
                     = Inr (g' ! i)" by simp
      note asg = this
      note same = assign_get_same [OF asg]
      from get_path_below [OF same, of "[''0'', ''key'']"]
        get_path_below [OF same, of "[''0'', ''operator'']"]
        get_path_below [OF same, of "[''0'', ''value'']"]
        get_path_below [OF same, of "[''0'', ''effect'']"]
        get_path_below [OF same, of "[''1'']"]
      have leaves:
        "get_path [''spec'', ''template'', ''spec'', ''tolerations'', ''0'', ''key'']
           (g' ! i) = Inr (JStr ''dedicated'')"
        "get_path [''spec'', ''template'', ''spec'', ''tolerations'', ''0'', ''operator'']
           (g' ! i) = Inr (JStr ''Equal'')"
        "get_path [''spec'', ''template'', ''spec'', ''tolerations'', ''0'', ''value'']
           (g' ! i) = Inr (JStr v)"
        "get_path [''spec'', ''template'', ''spec'', ''tolerations'', ''0'', ''effect'']
           (g' ! i) = Inr (JStr ''NoSchedule'')"
        "get_path [''spec'', ''template'', ''spec'', ''tolerations'', ''1''] (g' ! i)
           = Inr JUndefined"
        by (simp_all add: toleration_reads(2-6))
      have raw: "get_path [''spec'', ''template'', ''spec'', ''tolerations''] (g' ! i)
          = Inr (JArr [JObj (fmap_of_list
                   [(''key'', JStr ''dedicated''), (''operator'', JStr ''Equal''),
                    (''value'', JStr v), (''effect'', JStr ''NoSchedule'')])] fmempty)"
        using same by (simp only: toleration_reads(1))
      from same raw leaves assign_get_diverge [OF _ asg] k True
      show ?thesis by blast
    next
      case False
      with r k show ?thesis by simp
    qed
  qed
next
  assume wf: "\<forall>t \<in> set g. \<exists>k. get_prop ''kind'' t = Inr k
           \<and> (k = JStr ''Deployment'' \<longrightarrow>
                (\<exists>m. get_path [''spec'', ''template'', ''spec''] t = Inr (JObj m)))"
  have one: "\<exists>t'. tolerateDedicated v t = Inr t'" if "t \<in> set g" for t
  proof -
    from wf that obtain k where k: "get_prop ''kind'' t = Inr k"
      and d: "k = JStr ''Deployment'' \<longrightarrow>
                (\<exists>m. get_path [''spec'', ''template'', ''spec''] t = Inr (JObj m))" by blast
    show ?thesis
    proof (cases "k = JStr ''Deployment''")
      case True
      with d obtain m where "get_path [''spec'', ''template'', ''spec''] t = Inr (JObj m)" by blast
      from assign_total [OF this, of "''tolerations''" "toleration v"]
      obtain t' where "assign [''spec'', ''template'', ''spec'', ''tolerations''] (toleration v) t
                         = Inr t'"
        by (auto simp: settable_def)
      with k True show ?thesis by (simp add: tolerateDedicated_def)
    next
      case False
      with k show ?thesis by (simp add: tolerateDedicated_def)
    qed
  qed
  have "\<exists>g'. list_all2 (\<lambda>x y. tolerateDedicated v x = Inr y) g g'"
    using one
  proof (induction g)
    case Nil
    show ?case by simp
  next
    case (Cons x xs)
    then obtain y ys where "tolerateDedicated v x = Inr y"
      "list_all2 (\<lambda>x y. tolerateDedicated v x = Inr y) xs ys"
      by (metis list.set_intros(1,2))
    then have "list_all2 (\<lambda>x y. tolerateDedicated v x = Inr y) (x # xs) (y # ys)" by simp
    then show ?case by blast
  qed
  then show "\<exists>g'. apply_transformations [tolerateDedicated v] g = Inr g'"
    by (simp only: for_each_single for_each_Inr_iff)
qed

theorem tolerateDedicated_group_witness:
  "\<exists>g'. apply_transformations [tolerateDedicated ''temporal''] sample_group = Inr g'
        \<and> length g' = 4
        \<and> get_path [''spec'', ''template'', ''spec'', ''tolerations''] (g' ! 0)
            = Inr (toleration ''temporal'')
        \<and> get_path [''spec'', ''template'', ''spec'', ''tolerations''] (g' ! 1)
            = Inr (toleration ''temporal'')
        \<and> get_path [''spec'', ''template'', ''spec'', ''tolerations''] (g' ! 2)
            = Inr (toleration ''temporal'')
        \<and> get_path [''spec'', ''template'', ''spec'', ''tolerations''] (g' ! 0)
            = Inr (JArr [JObj (fmap_of_list
                     [(''key'', JStr ''dedicated''), (''operator'', JStr ''Equal''),
                      (''value'', JStr ''temporal''), (''effect'', JStr ''NoSchedule'')])]
                   fmempty)
        \<and> get_path [''spec'', ''template'', ''spec'', ''tolerations'', ''0'', ''key''] (g' ! 1)
            = Inr (JStr ''dedicated'')
        \<and> get_path [''spec'', ''template'', ''spec'', ''tolerations'', ''0'', ''operator'']
              (g' ! 1) = Inr (JStr ''Equal'')
        \<and> get_path [''spec'', ''template'', ''spec'', ''tolerations'', ''0'', ''value''] (g' ! 1)
            = Inr (JStr ''temporal'')
        \<and> get_path [''spec'', ''template'', ''spec'', ''tolerations'', ''0'', ''effect'']
              (g' ! 1) = Inr (JStr ''NoSchedule'')
        \<and> get_path [''spec'', ''template'', ''spec'', ''tolerations'', ''1''] (g' ! 1)
            = Inr JUndefined
        \<and> get_path [''spec'', ''replicas''] (g' ! 0) = Inr (JNum 1)
        \<and> g' ! 3 = sample_service
        \<and> get_path [''spec'', ''template''] (g' ! 3) = Inr JUndefined"
proof -
  have wf: "\<forall>t \<in> set sample_group. \<exists>k. get_prop ''kind'' t = Inr k
           \<and> (k = JStr ''Deployment'' \<longrightarrow>
                (\<exists>m. get_path [''spec'', ''template'', ''spec''] t = Inr (JObj m)))"
    using sample_deployment_reads(1,4) sample_service_reads(1)
    by (simp add: sample_group_def)
  note th = tolerateDedicated_group [of "''temporal''" sample_group]
  from th wf obtain g' where
    g': "apply_transformations [tolerateDedicated ''temporal''] sample_group = Inr g'"
    by blast
  from tolerateDedicated_group [of "''temporal''" sample_group g'] g'
  have len: "length g' = length sample_group"
    and each: "\<And>i. i < length sample_group \<Longrightarrow>
         (get_prop ''kind'' (sample_group ! i) = Inr (JStr ''Deployment'') \<longrightarrow>
            get_path [''spec'', ''template'', ''spec'', ''tolerations''] (g' ! i)
              = Inr (toleration ''temporal'')
            \<and> get_path [''spec'', ''template'', ''spec'', ''tolerations''] (g' ! i)
                = Inr (JArr [JObj (fmap_of_list
                         [(''key'', JStr ''dedicated''), (''operator'', JStr ''Equal''),
                          (''value'', JStr ''temporal''), (''effect'', JStr ''NoSchedule'')])]
                       fmempty)
            \<and> get_path [''spec'', ''template'', ''spec'', ''tolerations'', ''0'', ''key'']
                  (g' ! i) = Inr (JStr ''dedicated'')
            \<and> get_path [''spec'', ''template'', ''spec'', ''tolerations'', ''0'', ''operator'']
                  (g' ! i) = Inr (JStr ''Equal'')
            \<and> get_path [''spec'', ''template'', ''spec'', ''tolerations'', ''0'', ''value'']
                  (g' ! i) = Inr (JStr ''temporal'')
            \<and> get_path [''spec'', ''template'', ''spec'', ''tolerations'', ''0'', ''effect'']
                  (g' ! i) = Inr (JStr ''NoSchedule'')
            \<and> get_path [''spec'', ''template'', ''spec'', ''tolerations'', ''1''] (g' ! i)
                = Inr JUndefined
            \<and> (\<forall>q. diverge [''spec'', ''template'', ''spec'', ''tolerations''] q \<longrightarrow>
                  get_path q (g' ! i) = get_path q (sample_group ! i)))
       \<and> (get_prop ''kind'' (sample_group ! i) \<noteq> Inr (JStr ''Deployment'') \<longrightarrow>
            g' ! i = sample_group ! i)"
    by blast+
  have dv: "diverge [''spec'', ''template'', ''spec'', ''tolerations''] [''spec'', ''replicas'']"
    by (simp add: eval_simps)
  have kd: "get_prop ''kind'' (sample_group ! 0) = Inr (JStr ''Deployment'')"
    "get_prop ''kind'' (sample_group ! 1) = Inr (JStr ''Deployment'')"
    "get_prop ''kind'' (sample_group ! 2) = Inr (JStr ''Deployment'')"
    "get_prop ''kind'' (sample_group ! 3) \<noteq> Inr (JStr ''Deployment'')"
    "get_path [''spec'', ''replicas''] (sample_group ! 0) = Inr (JNum 1)"
    unfolding sample_group_nth
    by (simp_all add: sample_deployment_reads sample_service_reads)
  have lt: "0 < length sample_group" "1 < length sample_group" "2 < length sample_group"
    "3 < length sample_group"
    unfolding sample_group_nth by simp_all
  from each [OF lt(1)] kd(1)
  have t0: "get_path [''spec'', ''template'', ''spec'', ''tolerations''] (g' ! 0)
              = Inr (toleration ''temporal'')"
    and a0: "get_path [''spec'', ''template'', ''spec'', ''tolerations''] (g' ! 0)
            = Inr (JArr [JObj (fmap_of_list
                     [(''key'', JStr ''dedicated''), (''operator'', JStr ''Equal''),
                      (''value'', JStr ''temporal''), (''effect'', JStr ''NoSchedule'')])]
                   fmempty)"
    and f0: "\<forall>q. diverge [''spec'', ''template'', ''spec'', ''tolerations''] q \<longrightarrow>
                  get_path q (g' ! 0) = get_path q (sample_group ! 0)"
    by blast+
  from f0 dv kd(5) have r0: "get_path [''spec'', ''replicas''] (g' ! 0) = Inr (JNum 1)"
    by simp
  from each [OF lt(2)] kd(2)
  have t1: "get_path [''spec'', ''template'', ''spec'', ''tolerations''] (g' ! 1)
              = Inr (toleration ''temporal'')"
    and l1: "get_path [''spec'', ''template'', ''spec'', ''tolerations'', ''0'', ''key'']
               (g' ! 1) = Inr (JStr ''dedicated'')"
      "get_path [''spec'', ''template'', ''spec'', ''tolerations'', ''0'', ''operator'']
               (g' ! 1) = Inr (JStr ''Equal'')"
      "get_path [''spec'', ''template'', ''spec'', ''tolerations'', ''0'', ''value'']
               (g' ! 1) = Inr (JStr ''temporal'')"
      "get_path [''spec'', ''template'', ''spec'', ''tolerations'', ''0'', ''effect'']
               (g' ! 1) = Inr (JStr ''NoSchedule'')"
      "get_path [''spec'', ''template'', ''spec'', ''tolerations'', ''1''] (g' ! 1)
               = Inr JUndefined"
    by blast+
  have t2: "get_path [''spec'', ''template'', ''spec'', ''tolerations''] (g' ! 2)
              = Inr (toleration ''temporal'')"
    using each [OF lt(3)] kd(3) by blast
  have s3: "g' ! 3 = sample_service"
    using each [OF lt(4)] kd(4) sample_group_nth(4) by metis
  have l4: "length g' = 4" using len by (simp add: sample_group_nth)
  have u3: "get_path [''spec'', ''template''] (g' ! 3) = Inr JUndefined"
    unfolding s3 by (rule sample_service_reads(2))
  from g' l4 t0 t1 t2 a0 l1 r0 s3 u3 show ?thesis by blast
qed

text \<open>
  Claim C7. On an object that the Datasource Patcher targets (kind GrafanaDatasource,
  matching name), whenever the patcher returns, the datasource URL is the endpoint if the
  endpoint is non-empty and reads as before if it is empty, and in both cases the signing
  metadata is (signature version 4 on, auth type \<^verbatim>\<open>ec2_iam_role\<close>, the given region);
  paths diverging from the URL and the metadata read as before. The patcher returns
  whenever \<^verbatim>\<open>spec.datasource\<close> is an object.
\<close>

theorem configureAWSDatasource_effect:
  assumes "is_target ''GrafanaDatasource'' name obj = Inr True"
  shows "(configureAWSDatasource name region endpoint obj = Inr obj' \<longrightarrow>
            get_path [''spec'', ''datasource'', ''url''] obj'
              = (if endpoint \<noteq> [] then Inr (JStr endpoint)
                 else get_path [''spec'', ''datasource'', ''url''] obj)
          \<and> get_path [''spec'', ''datasource'', ''jsonData''] obj'
              = Inr (obj_lit [(''sigV4Auth'', JBool True),
                              (''sigV4AuthType'', JStr ''ec2_iam_role''),
                              (''sigV4Region'', JStr region)])
          \<and> get_path [''spec'', ''datasource'', ''jsonData'', ''sigV4Auth''] obj'
              = Inr (JBool True)
          \<and> get_path [''spec'', ''datasource'', ''jsonData'', ''sigV4AuthType''] obj'
              = Inr (JStr ''ec2_iam_role'')
          \<and> get_path [''spec'', ''datasource'', ''jsonData'', ''sigV4Region''] obj'
              = Inr (JStr region)
          \<and> (\<forall>q. diverge [''spec'', ''datasource'', ''url''] q
                 \<and> diverge [''spec'', ''datasource'', ''jsonData''] q
               \<longrightarrow> get_path q obj' = get_path q obj))
       \<and> ((\<exists>m. get_path [''spec'', ''datasource''] obj = Inr (JObj m))
           \<longrightarrow> (\<exists>obj'. configureAWSDatasource name region endpoint obj = Inr obj'))"
proof -
  let ?j = "obj_lit [(''sigV4Auth'', JBool True), (''sigV4AuthType'', JStr ''ec2_iam_role''),
                     (''sigV4Region'', JStr region)]"
  have jd: "get_path [''sigV4Auth''] ?j = Inr (JBool True)"
    "get_path [''sigV4AuthType''] ?j = Inr (JStr ''ec2_iam_role'')"
    "get_path [''sigV4Region''] ?j = Inr (JStr region)"
    by (simp_all add: eval_simps)
  note d = datasource_paths_diverge
  have effect: "get_path [''spec'', ''datasource'', ''url''] obj'
              = (if endpoint \<noteq> [] then Inr (JStr endpoint)
                 else get_path [''spec'', ''datasource'', ''url''] obj)
          \<and> get_path [''spec'', ''datasource'', ''jsonData''] obj' = Inr ?j
          \<and> get_path [''spec'', ''datasource'', ''jsonData'', ''sigV4Auth''] obj'
              = Inr (JBool True)
          \<and> get_path [''spec'', ''datasource'', ''jsonData'', ''sigV4AuthType''] obj'
              = Inr (JStr ''ec2_iam_role'')
          \<and> get_path [''spec'', ''datasource'', ''jsonData'', ''sigV4Region''] obj'
              = Inr (JStr region)
          \<and> (\<forall>q. diverge [''spec'', ''datasource'', ''url''] q
                 \<and> diverge [''spec'', ''datasource'', ''jsonData''] q
               \<longrightarrow> get_path q obj' = get_path q obj)"
    if r: "configureAWSDatasource name region endpoint obj = Inr obj'"
  proof -
    from r assms obtain o1 where
      a1: "(if endpoint \<noteq> [] then assign [''spec'', ''datasource'', ''url''] (JStr endpoint) obj
            else Inr obj) = Inr o1"
      and a2: "assign [''spec'', ''datasource'', ''jsonData''] ?j o1 = Inr obj'"
      by (auto simp: configureAWSDatasource_def bindE_def split: sum.splits)
    have u1: "get_path [''spec'', ''datasource'', ''url''] o1
        = (if endpoint \<noteq> [] then Inr (JStr endpoint)
           else get_path [''spec'', ''datasource'', ''url''] obj)"
      using a1 by (auto split: if_splits dest: assign_get_same)
    have f1: "diverge [''spec'', ''datasource'', ''url''] q \<Longrightarrow> get_path q o1 = get_path q obj"
      for q using a1 by (auto split: if_splits dest: assign_get_diverge)
    have url: "get_path [''spec'', ''datasource'', ''url''] obj'
        = (if endpoint \<noteq> [] then Inr (JStr endpoint)
           else get_path [''spec'', ''datasource'', ''url''] obj)"
      using assign_get_diverge [OF d(2) a2] u1 by simp
    have js: "get_path [''spec'', ''datasource'', ''jsonData''] obj' = Inr ?j"
      using a2 by (rule assign_get_same)
    have sub: "get_path ([''spec'', ''datasource'', ''jsonData''] @ [k]) obj'
        = get_path [k] ?j" for k
      unfolding get_path_append js by simp
    have fr: "get_path q obj' = get_path q obj"
      if "diverge [''spec'', ''datasource'', ''url''] q
          \<and> diverge [''spec'', ''datasource'', ''jsonData''] q" for q
      using that f1 [of q] assign_get_diverge [OF _ a2, of q] by simp
    from url js sub [of "''sigV4Auth''"] sub [of "''sigV4AuthType''"] sub [of "''sigV4Region''"]
      jd fr
    show ?thesis by simp
  qed
  have total: "\<exists>obj'. configureAWSDatasource name region endpoint obj = Inr obj'"
    if "\<exists>m. get_path [''spec'', ''datasource''] obj = Inr (JObj m)"
  proof -
    from that obtain c0 where c0: "get_path [''spec'', ''datasource''] obj = Inr c0" "settable c0"
      by (auto simp: settable_def)
    have "\<exists>o1 c1. (if endpoint \<noteq> [] then assign [''spec'', ''datasource'', ''url''] (JStr endpoint) obj
            else Inr obj) = Inr o1
          \<and> get_path [''spec'', ''datasource''] o1 = Inr c1 \<and> settable c1"
    proof (cases "endpoint \<noteq> []")
      case True
      from assign_total [OF c0, of "''url''" "JStr endpoint"]
      obtain o1 where a1: "assign [''spec'', ''datasource'', ''url''] (JStr endpoint) obj = Inr o1"
        by auto
      from assign_parent_settable [of "[''spec'', ''datasource'']" "''url''" "JStr endpoint" obj o1]
        a1
      obtain c1 where "get_path [''spec'', ''datasource''] o1 = Inr c1" "settable c1" by auto
      with a1 True show ?thesis by auto
    next
      case False
      with c0 show ?thesis by auto
    qed
    then obtain o1 c1 where
      a1: "(if endpoint \<noteq> [] then assign [''spec'', ''datasource'', ''url''] (JStr endpoint) obj
            else Inr obj) = Inr o1"
      and c1: "get_path [''spec'', ''datasource''] o1 = Inr c1" "settable c1" by blast
    from assign_total [OF c1, of "''jsonData''" ?j]
    obtain o2 where "assign [''spec'', ''datasource'', ''jsonData''] ?j o1 = Inr o2" by auto
    with a1 assms show ?thesis by (simp add: configureAWSDatasource_def)
  qed
  from effect total show ?thesis by blast
qed

theorem configureAWSDatasource_effect_witness:
  "(\<exists>obj'. configureAWSDatasource ''cloudwatch'' ''us-west-2'' [] sample_datasource = Inr obj'
      \<and> get_path [''spec'', ''datasource'', ''url''] obj' = Inr (JStr ''https://monitoring.example/'')
      \<and> get_path [''spec'', ''datasource'', ''jsonData'', ''sigV4Auth''] obj' = Inr (JBool True)
      \<and> get_path [''spec'', ''datasource'', ''jsonData'', ''sigV4Region''] obj'
          = Inr (JStr ''us-west-2''))
   \<and> (\<exists>obj'. configureAWSDatasource ''cloudwatch'' ''us-west-2'' ''https://amp.example/''
               sample_datasource = Inr obj'
      \<and> get_path [''spec'', ''datasource'', ''url''] obj' = Inr (JStr ''https://amp.example/'')
      \<and> get_path [''spec'', ''datasource'', ''jsonData'', ''sigV4AuthType''] obj'
          = Inr (JStr ''ec2_iam_role''))"
proof -
  have tg: "is_target ''GrafanaDatasource'' ''cloudwatch'' sample_datasource = Inr True"
    by (simp add: sample_datasource_def eval_simps)
  have wf: "\<exists>m. get_path [''spec'', ''datasource''] sample_datasource = Inr (JObj m)"
    by (simp add: sample_datasource_def eval_simps)
  have before: "get_path [''spec'', ''datasource'', ''url''] sample_datasource
      = Inr (JStr ''https://monitoring.example/'')"
    by (simp add: sample_datasource_def eval_simps)
  note th = configureAWSDatasource_effect [OF tg]
  from th [of "''us-west-2''" "[]"] wf obtain o1 where
    r1: "configureAWSDatasource ''cloudwatch'' ''us-west-2'' [] sample_datasource = Inr o1"
    by blast
  from th [of "''us-west-2''" "''https://amp.example/''"] wf obtain o2 where
    r2: "configureAWSDatasource ''cloudwatch'' ''us-west-2'' ''https://amp.example/''
           sample_datasource = Inr o2"
    by blast
  from th [of "''us-west-2''" "[]" o1] r1 before
  have "get_path [''spec'', ''datasource'', ''url''] o1 = Inr (JStr ''https://monitoring.example/'')
      \<and> get_path [''spec'', ''datasource'', ''jsonData'', ''sigV4Auth''] o1 = Inr (JBool True)
      \<and> get_path [''spec'', ''datasource'', ''jsonData'', ''sigV4Region''] o1
          = Inr (JStr ''us-west-2'')"
    by simp
  moreover from th [of "''us-west-2''" "''https://amp.example/''" o2] r2
  have "get_path [''spec'', ''datasource'', ''url''] o2 = Inr (JStr ''https://amp.example/'')
      \<and> get_path [''spec'', ''datasource'', ''jsonData'', ''sigV4AuthType''] o2
          = Inr (JStr ''ec2_iam_role'')"
    by simp
  ultimately show ?thesis using r1 r2 by blast
qed

text \<open>
  Claim C8. The engine identifier of a relational-database configuration selects a fixed
  triple: \<^verbatim>\<open>postgres\<close> and \<^verbatim>\<open>aurora-postgresql\<close> give (postgresql, 5432, POSTGRES),
  \<^verbatim>\<open>mysql\<close> and \<^verbatim>\<open>aurora-mysql\<close> give (mysql, 3306, MYSQL), and the output map shows the
  protocol under \<^verbatim>\<open>DB\<close>, the port under \<^verbatim>\<open>DB_PORT\<close> and the prefix in its keys. With any
  other identifier the resolution fails with \<open>InvalidConfiguration\<close> before it registers
  a resource or produces a map.
\<close>

theorem rds_engine_table:
  "(Engine config \<in> {''postgres'', ''aurora-postgresql''} \<longrightarrow>
      rds_engine (Engine config) = Inr (''postgresql'', 5432, ''POSTGRES'', Map.empty)
      \<and> (\<exists>rs m. rdsPersistence env temporalConfig name config sg = (rs, Inr m)
            \<and> m ''DB'' = Some ''postgresql'' \<and> m ''DB_PORT'' = Some ''5432''
            \<and> m ''POSTGRES_SEEDS'' \<noteq> None \<and> m ''POSTGRES_USER'' \<noteq> None
            \<and> m ''POSTGRES_PWD'' \<noteq> None))
   \<and> (Engine config \<in> {''mysql'', ''aurora-mysql''} \<longrightarrow>
      rds_engine (Engine config)
        = Inr (''mysql'', 3306, ''MYSQL'', [''MYSQL_TX_ISOLATION_COMPAT'' \<mapsto> ''true''])
      \<and> (\<exists>rs m. rdsPersistence env temporalConfig name config sg = (rs, Inr m)
            \<and> m ''DB'' = Some ''mysql'' \<and> m ''DB_PORT'' = Some ''3306''
            \<and> m ''MYSQL_SEEDS'' \<noteq> None \<and> m ''MYSQL_USER'' \<noteq> None
            \<and> m ''MYSQL_PWD'' \<noteq> None))
   \<and> (Engine config \<notin> {''postgres'', ''aurora-postgresql'', ''mysql'', ''aurora-mysql''} \<longrightarrow>
      rds_engine (Engine config) = Inl (InvalidConfiguration ''invalid RDS config'')
      \<and> rdsPersistence env temporalConfig name config sg
          = ([], Inl (InvalidConfiguration ''invalid RDS config''))
      \<and> (\<forall>pc cluster. RDS pc = Some config \<longrightarrow>
            createPersistence env temporalConfig pc cluster
              = ([], Inl (InvalidConfiguration ''invalid RDS config''))))"
proof (intro conjI impI)
  assume e: "Engine config \<in> {''postgres'', ''aurora-postgresql''}"
  then show "rds_engine (Engine config) = Inr (''postgresql'', 5432, ''POSTGRES'', Map.empty)"
    by (auto simp: rds_engine_def)
  from e have "Engine config = ''postgres'' \<or> Engine config = ''aurora-postgresql''" by simp
  from rdsPersistence_postgres [OF this, of env temporalConfig name sg]
  show "\<exists>rs m. rdsPersistence env temporalConfig name config sg = (rs, Inr m)
            \<and> m ''DB'' = Some ''postgresql'' \<and> m ''DB_PORT'' = Some ''5432''
            \<and> m ''POSTGRES_SEEDS'' \<noteq> None \<and> m ''POSTGRES_USER'' \<noteq> None
            \<and> m ''POSTGRES_PWD'' \<noteq> None"
    by fastforce
next
  assume e: "Engine config \<in> {''mysql'', ''aurora-mysql''}"
  then show "rds_engine (Engine config)
      = Inr (''mysql'', 3306, ''MYSQL'', [''MYSQL_TX_ISOLATION_COMPAT'' \<mapsto> ''true''])"
    by (auto simp: rds_engine_def)
  from e have "Engine config = ''mysql'' \<or> Engine config = ''aurora-mysql''" by simp
  from rdsPersistence_mysql [OF this, of env temporalConfig name sg]
  show "\<exists>rs m. rdsPersistence env temporalConfig name config sg = (rs, Inr m)
            \<and> m ''DB'' = Some ''mysql'' \<and> m ''DB_PORT'' = Some ''3306''
            \<and> m ''MYSQL_SEEDS'' \<noteq> None \<and> m ''MYSQL_USER'' \<noteq> None
            \<and> m ''MYSQL_PWD'' \<noteq> None"
    by fastforce
next
  assume e: "Engine config \<notin> {''postgres'', ''aurora-postgresql'', ''mysql'', ''aurora-mysql''}"
  then show "rds_engine (Engine config) = Inl (InvalidConfiguration ''invalid RDS config'')"
    by (simp add: rds_engine_def)
  show "rdsPersistence env temporalConfig name config sg
          = ([], Inl (InvalidConfiguration ''invalid RDS config''))"
    using e by (rule rdsPersistence_other)
  show "\<forall>pc cluster. RDS pc = Some config \<longrightarrow>
            createPersistence env temporalConfig pc cluster
              = ([], Inl (InvalidConfiguration ''invalid RDS config''))"
    by (simp add: createPersistence_rds rdsPersistence_other [OF e])
qed

theorem rds_engine_table_witness:
  "(\<exists>rs m. rdsPersistence sample_env sample_temporal ''bench'' (sample_rds ''postgres'') ''sg-1''
              = (rs, Inr m)
       \<and> m ''DB'' = Some ''postgresql'' \<and> m ''DB_PORT'' = Some ''5432'')
   \<and> (\<exists>rs m. rdsPersistence sample_env sample_temporal ''bench'' (sample_rds ''aurora-mysql'')
                ''sg-1'' = (rs, Inr m)
       \<and> m ''DB'' = Some ''mysql'' \<and> m ''DB_PORT'' = Some ''3306'')
   \<and> rdsPersistence sample_env sample_temporal ''bench'' (sample_rds ''oracle'') ''sg-1''
        = ([], Inl (InvalidConfiguration ''invalid RDS config''))
   \<and> createPersistence sample_env sample_temporal (sample_persistence ''sqlite'') sample_cluster
        = ([], Inl (InvalidConfiguration ''invalid RDS config''))"
proof -
  have e: "Engine (sample_rds ''postgres'') \<in> {''postgres'', ''aurora-postgresql''}"
    "Engine (sample_rds ''aurora-mysql'') \<in> {''mysql'', ''aurora-mysql''}"
    "Engine (sample_rds ''oracle'')
       \<notin> {''postgres'', ''aurora-postgresql'', ''mysql'', ''aurora-mysql''}"
    "Engine (sample_rds ''sqlite'')
       \<notin> {''postgres'', ''aurora-postgresql'', ''mysql'', ''aurora-mysql''}"
    "RDS (sample_persistence ''sqlite'') = Some (sample_rds ''sqlite'')"
    by (simp_all add: sample_rds_def sample_persistence_def)
  from rds_engine_table [of "sample_rds ''postgres''" sample_env sample_temporal "''bench''" "''sg-1''"]
    e(1)
  have a: "\<exists>rs m. rdsPersistence sample_env sample_temporal ''bench'' (sample_rds ''postgres'') ''sg-1''
              = (rs, Inr m)
       \<and> m ''DB'' = Some ''postgresql'' \<and> m ''DB_PORT'' = Some ''5432''"
    by blast
  from rds_engine_table [of "sample_rds ''aurora-mysql''" sample_env sample_temporal "''bench''"
      "''sg-1''"] e(2)
  have b: "\<exists>rs m. rdsPersistence sample_env sample_temporal ''bench'' (sample_rds ''aurora-mysql'')
                ''sg-1'' = (rs, Inr m)
       \<and> m ''DB'' = Some ''mysql'' \<and> m ''DB_PORT'' = Some ''3306''"
    by blast
  from rds_engine_table [of "sample_rds ''oracle''" sample_env sample_temporal "''bench''" "''sg-1''"]
    e(3)
  have c: "rdsPersistence sample_env sample_temporal ''bench'' (sample_rds ''oracle'') ''sg-1''
        = ([], Inl (InvalidConfiguration ''invalid RDS config''))"
    by blast
  from rds_engine_table [of "sample_rds ''sqlite''" sample_env sample_temporal "''bench''" "''sg-1''"]
    e(4,5)
  have d: "createPersistence sample_env sample_temporal (sample_persistence ''sqlite'')
      sample_cluster = ([], Inl (InvalidConfiguration ''invalid RDS config''))"
    by blast
  from a b c d show ?thesis by blast
qed

text \<open>
  Claim C9, as amended. With a frontend pod count \<open>pods\<close> and a total concurrent-workflow
  count \<open>total\<close> such that \<open>0 < pods < 2^53\<close> and \<open>|total| < 2^53\<close>, \<^verbatim>\<open>CONCURRENT_WORKFLOWS\<close>
  is the decimal text of \<open>k\<close>, the ceiling of \<open>total / pods\<close>: \<open>k\<close> is the least integer with
  \<open>total \<le> k * pods\<close>, and the text is a minus sign if \<open>k\<close> is negative, followed by the
  digits of \<open>|k|\<close>, which are decimal digits without a leading zero (the single digit 0 for
  zero) and read back as \<open>|k|\<close>.
\<close>

theorem soakTestConfig_ceiling:
  assumes "0 < FrontendConfig.Pods (Frontend temporalConfig)"
    and "FrontendConfig.Pods (Frontend temporalConfig) < 2 ^ 53"
    and "\<bar>ConcurrentWorkflows (SoakTest temporalConfig)\<bar> < 2 ^ 53"
  shows "\<exists>k. k = \<lceil>real_of_int (ConcurrentWorkflows (SoakTest temporalConfig))
                   / real_of_int (FrontendConfig.Pods (Frontend temporalConfig))\<rceil>
           \<and> (k - 1) * FrontendConfig.Pods (Frontend temporalConfig)
                < ConcurrentWorkflows (SoakTest temporalConfig)
           \<and> ConcurrentWorkflows (SoakTest temporalConfig)
                \<le> k * FrontendConfig.Pods (Frontend temporalConfig)
           \<and> soakTestConfig temporalConfig ''CONCURRENT_WORKFLOWS''
                = Some (if k < 0 then CHR ''-'' # string_of_nat (nat (- k))
                        else string_of_nat (nat k))
           \<and> string_of_nat (nat \<bar>k\<bar>) \<noteq> []
           \<and> list_all is_digit (string_of_nat (nat \<bar>k\<bar>))
           \<and> (hd (string_of_nat (nat \<bar>k\<bar>)) = CHR ''0'') = (k = 0)
           \<and> int (decimal_value (string_of_nat (nat \<bar>k\<bar>))) = \<bar>k\<bar>"
proof -
  let ?a = "ConcurrentWorkflows (SoakTest temporalConfig)"
  let ?b = "FrontendConfig.Pods (Frontend temporalConfig)"
  define k where "k = \<lceil>real_of_int ?a / real_of_int ?b\<rceil>"
  have s: "soakTestConfig temporalConfig ''CONCURRENT_WORKFLOWS''
      = Some (if k < 0 then CHR ''-'' # string_of_nat (nat (- k)) else string_of_nat (nat k))"
    unfolding k_def soakTestConfig_def using ceil_div_text [OF assms] by simp
  have c: "(k - 1) * ?b < ?a \<and> ?a \<le> k * ?b"
    using ceiling_quotient_iff [OF assms(1), of k ?a] k_def by simp
  from string_of_nat_digits [of "nat \<bar>k\<bar>"]
  have d: "string_of_nat (nat \<bar>k\<bar>) \<noteq> []" "list_all is_digit (string_of_nat (nat \<bar>k\<bar>))"
    "(hd (string_of_nat (nat \<bar>k\<bar>)) = CHR ''0'') = (k = 0)"
    by simp_all
  have v: "int (decimal_value (string_of_nat (nat \<bar>k\<bar>))) = \<bar>k\<bar>"
    by (simp add: decimal_value_string_of_nat)
  from s c d v k_def show ?thesis by blast
qed

theorem soakTestConfig_ceiling_witness:
  "soakTestConfig sample_temporal ''CONCURRENT_WORKFLOWS'' = Some ''4''"
proof -
  have p: "0 < FrontendConfig.Pods (Frontend sample_temporal)"
    "FrontendConfig.Pods (Frontend sample_temporal) < 2 ^ 53"
    "\<bar>ConcurrentWorkflows (SoakTest sample_temporal)\<bar> < 2 ^ 53"
    by (simp_all add: sample_temporal_def)
  from soakTestConfig_ceiling [OF p] obtain k where
    s: "soakTestConfig sample_temporal ''CONCURRENT_WORKFLOWS''
          = Some (if k < 0 then CHR ''-'' # string_of_nat (nat (- k)) else string_of_nat (nat k))"
    and lo: "(k - 1) * FrontendConfig.Pods (Frontend sample_temporal)
               < ConcurrentWorkflows (SoakTest sample_temporal)"
    and hi: "ConcurrentWorkflows (SoakTest sample_temporal)
               \<le> k * FrontendConfig.Pods (Frontend sample_temporal)"
    by blast
  from lo hi have "k = 4" by (simp add: sample_temporal_def)
  with s show ?thesis by (simp add: string_of_nat.simps)
qed

text \<open>
  The claim as it stands, for every positive pod count, fails for large counts. A total of
  \<open>2^54\<close> over 3 pods has the ceiling 6004799503160662; the quotient
  6004799503160661.33... is not a double, the division rounds it to 6004799503160661, and
  that is what \<^verbatim>\<open>CONCURRENT_WORKFLOWS\<close> holds.
\<close>

theorem soakTestConfig_rounding_counterexample:
  "0 < FrontendConfig.Pods (Frontend large_soak_temporal)
   \<and> \<lceil>real_of_int (ConcurrentWorkflows (SoakTest large_soak_temporal))
        / real_of_int (FrontendConfig.Pods (Frontend large_soak_temporal))\<rceil>
       = 6004799503160662
   \<and> number_toString 6004799503160662 = ''6004799503160662''
   \<and> soakTestConfig large_soak_temporal ''CONCURRENT_WORKFLOWS'' = Some ''6004799503160661''"
proof -
  have p: "FrontendConfig.Pods (Frontend large_soak_temporal) = 3"
    "ConcurrentWorkflows (SoakTest large_soak_temporal) = 18014398509481984"
    by (simp_all add: large_soak_temporal_def sample_temporal_def)
  have c: "\<lceil>real_of_int 18014398509481984 / real_of_int 3\<rceil> = (6004799503160662::int)"
    using ceiling_quotient_iff [of 3 6004799503160662 18014398509481984] by simp
  have t: "number_toString 6004799503160662 = ''6004799503160662''"
    by (simp add: number_toString_safe string_of_nat.simps)
  have q: "Math_ceil (js_div (number_of_int 18014398509481984) (number_of_int 3))
      = Whole 6004799503160661"
    by (simp add: num_eval)
  have w: "whole_toString (Whole 6004799503160661) = ''6004799503160661''"
    by (simp add: whole_toString_def nat_toString_safe string_of_nat.simps)
  have s: "soakTestConfig large_soak_temporal ''CONCURRENT_WORKFLOWS''
      = Some ''6004799503160661''"
    unfolding soakTestConfig_def p q w by simp
  from p c t s show ?thesis by simp
qed

text \<open>
  Claim C10, as amended. When both persistence variants are populated and the RDS engine
  identifier is one of the four recognised ones, the persistence resolution does not fail:
  it returns the RDS map (no Cassandra entry), and it is the very result obtained with the
  Cassandra variant removed. The whole resolution then succeeds for any populated cluster
  branch; the cluster builder, which reads the Cassandra variant on its own, still adds
  the Cassandra node group.
\<close>

theorem createPersistence_prefers_rds:
  assumes "RDS pc = Some r" and "Cassandra pc = Some c"
    and "Engine r \<in> {''postgres'', ''aurora-postgresql'', ''mysql'', ''aurora-mysql''}"
  shows "(\<exists>rs m. createPersistence env temporalConfig pc cluster = (rs, Inr m)
            \<and> m ''DB'' \<noteq> Some ''cassandra'' \<and> m ''CASSANDRA_SEEDS'' = None)
       \<and> createPersistence env temporalConfig pc cluster
           = createPersistence env temporalConfig (pc\<lparr>Cassandra := None\<rparr>) cluster
       \<and> (\<forall>cc. EKS cc \<noteq> None \<longrightarrow>
             (\<exists>rs m. resolve env temporalConfig cc pc = (rs, Inr m)
                \<and> Resource ''eks.NodeGroup'' (Stack env @ ''-cassandra'') \<in> set rs))"
proof -
  let ?v = "createAdvancedVisibility (Visibility pc)"
  have vis: "(p ++ snd (?v k)) ''DB'' = p ''DB''"
    "(p ++ snd (?v k)) ''CASSANDRA_SEEDS'' = p ''CASSANDRA_SEEDS''" for p k
    using createAdvancedVisibility_dom [of "Visibility pc" k]
    by (rule map_add_keep, simp)+
  have ok: "\<exists>rs m. createPersistence env temporalConfig pc k = (rs, Inr m)
            \<and> m ''DB'' \<noteq> Some ''cassandra'' \<and> m ''CASSANDRA_SEEDS'' = None" for k
  proof (cases "Engine r = ''postgres'' \<or> Engine r = ''aurora-postgresql''")
    case True
    from rdsPersistence_postgres [OF True, of env temporalConfig "Stack env" "securityGroup k"]
    obtain rs p where p: "rdsPersistence env temporalConfig (Stack env) r (securityGroup k)
        = (rs, Inr p)" and db: "p ''DB'' = Some ''postgresql''"
      by blast
    from p True have "p ''CASSANDRA_SEEDS'' = None"
      by (cases "rds_database env (Stack env) r")
         (auto simp: rdsPersistence_def rds_engine_def)
    with p db vis show ?thesis
      by (simp add: createPersistence_rds [OF assms(1)])
  next
    case False
    with assms(3) have my: "Engine r = ''mysql'' \<or> Engine r = ''aurora-mysql''" by auto
    from rdsPersistence_mysql [OF my, of env temporalConfig "Stack env" "securityGroup k"]
    obtain rs p where p: "rdsPersistence env temporalConfig (Stack env) r (securityGroup k)
        = (rs, Inr p)" and db: "p ''DB'' = Some ''mysql''"
      by blast
    from p my have "p ''CASSANDRA_SEEDS'' = None"
      by (cases "rds_database env (Stack env) r")
         (auto simp: rdsPersistence_def rds_engine_def)
    with p db vis show ?thesis
      by (simp add: createPersistence_rds [OF assms(1)])
  qed
  have v': "Visibility (pc\<lparr>Cassandra := None\<rparr>) = Visibility pc" by simp
  have r': "RDS (pc\<lparr>Cassandra := None\<rparr>) = Some r" using assms(1) by simp
  have same: "createPersistence env temporalConfig pc cluster
           = createPersistence env temporalConfig (pc\<lparr>Cassandra := None\<rparr>) cluster"
    unfolding createPersistence_rds [OF assms(1)] createPersistence_rds [OF r'] v' ..
  have res: "\<exists>rs m. resolve env temporalConfig cc pc = (rs, Inr m)
                \<and> Resource ''eks.NodeGroup'' (Stack env @ ''-cassandra'') \<in> set rs"
    if "EKS cc \<noteq> None" for cc
  proof -
    from that obtain eks where eks: "EKS cc = Some eks" by auto
    let ?k = "snd (eksCluster env (Stack env) eks pc)"
    from ok [of ?k] obtain rs m where
      "createPersistence env temporalConfig pc ?k = (rs, Inr m)" by blast
    moreover have "Resource ''eks.NodeGroup'' (Stack env @ ''-cassandra'')
        \<in> set (fst (eksCluster env (Stack env) eks pc))"
      using assms(2) by (simp add: eksCluster_def)
    ultimately show ?thesis by (simp add: resolve_some [OF eks])
  qed
  from ok [of cluster] same res show ?thesis by blast
qed

theorem createPersistence_prefers_rds_witness:
  "(\<exists>rs m. createPersistence sample_env sample_temporal (sample_persistence ''mysql'')
             sample_cluster = (rs, Inr m) \<and> m ''DB'' \<noteq> Some ''cassandra'')
   \<and> createPersistence sample_env sample_temporal (sample_persistence ''mysql'') sample_cluster
       = createPersistence sample_env sample_temporal
           ((sample_persistence ''mysql'')\<lparr>Cassandra := None\<rparr>) sample_cluster"
proof -
  have h: "RDS (sample_persistence ''mysql'') = Some (sample_rds ''mysql'')"
    "Cassandra (sample_persistence ''mysql'') = Some sample_cassandra"
    "Engine (sample_rds ''mysql'')
       \<in> {''postgres'', ''aurora-postgresql'', ''mysql'', ''aurora-mysql''}"
    by (simp_all add: sample_persistence_def sample_rds_def)
  from createPersistence_prefers_rds [OF h, of sample_env sample_temporal sample_cluster]
  show ?thesis by blast
qed

theorem unknown_engine_counterexample:
  "RDS (sample_persistence ''oracle'') \<noteq> None
   \<and> Cassandra (sample_persistence ''oracle'') \<noteq> None
   \<and> createPersistence sample_env sample_temporal (sample_persistence ''oracle'') sample_cluster
       = ([], Inl (InvalidConfiguration ''invalid RDS config''))"
  by (simp add: sample_persistence_def sample_rds_def createPersistence_def
      select_persistence_def rdsPersistence_def rds_engine_def)

end
